theory Spec2Isabelle
  imports Complex_Main
begin

section \<open>Data model (src/types.ts)\<close>

text \<open>
  A JavaScript \<open>number\<close> is modelled as a mathematical \<open>real\<close>: rounding, infinities and
  NaN of IEEE doubles are outside the model.  The integer counters of the analyzer
  (\<open>eventCounter\<close>, \<open>moveOrderCounter\<close>, the two debounce counters) only ever start at 0
  and are incremented by one, so they are natural numbers (a double counts exactly up
  to \<open>2^53\<close>).
\<close>

record Point =
  x :: real
  y :: real
  z :: real

datatype Handedness = Left | Right

record HandData =
  handedness :: Handedness
  landmarks :: "Point list"
  velocity :: real
  isMoving :: bool
  score :: real

text \<open>The string union \<open>'START' | 'STOP'\<close> of \<open>MotionEvent.type\<close>.\<close>

datatype EventType = START | STOP

text \<open>
  The optional fields \<open>duration?\<close>, \<open>distance?\<close> and \<open>orderIndex?\<close> are \<open>None\<close> where the
  object literal of the source leaves them out.
\<close>

record MotionEvent =
  id_evt :: string
  hand :: Handedness
  type_evt :: EventType
  timestamp :: real
  duration :: "real option"
  distance :: "real option"
  orderIndex :: "nat option"

record TrackerConfig =
  threshold :: real
  smoothingFrames :: real
  minDurationFrames :: real

text \<open>The only exception the analyzer can raise: reading a property of \<open>undefined\<close>.\<close>

datatype error = TypeError

section \<open>The moving-average buffer (class VelocityBuffer)\<close>

record VelocityBuffer =
  buffer :: "real list"
  size_vb :: real

definition VelocityBuffer_new :: "real \<Rightarrow> VelocityBuffer" where
  "VelocityBuffer_new n = \<lparr>buffer = [], size_vb = n\<rparr>"

text \<open>\<open>add\<close>: push at the end, then drop the oldest sample when the length exceeds \<open>size\<close>.\<close>

definition VelocityBuffer_add :: "VelocityBuffer \<Rightarrow> real \<Rightarrow> VelocityBuffer" where
  "VelocityBuffer_add vb val =
     (let pushed = buffer vb @ [val]
      in if real (length pushed) > size_vb vb
         then vb\<lparr>buffer := tl pushed\<rparr>
         else vb\<lparr>buffer := pushed\<rparr>)"

text \<open>\<open>average\<close>: 0 on the empty buffer, else the left fold of \<open>+\<close> divided by the length.\<close>

definition VelocityBuffer_average :: "VelocityBuffer \<Rightarrow> real" where
  "VelocityBuffer_average vb =
     (if length (buffer vb) = 0 then 0
      else foldl (+) 0 (buffer vb) / real (length (buffer vb)))"

definition VelocityBuffer_reset :: "VelocityBuffer \<Rightarrow> VelocityBuffer" where
  "VelocityBuffer_reset vb = vb\<lparr>buffer := []\<rparr>"

section \<open>The analyzer (class MotionAnalyzer)\<close>

record HandState =
  isMoving :: bool
  motionStartTime :: "real option"
  lastPosition :: "Point option"
  totalDistance :: real
  velocityBuffer :: VelocityBuffer
  framesBelowThreshold :: nat
  framesAboveThreshold :: nat

record MotionAnalyzer =
  config :: TrackerConfig
  leftHand :: HandState
  rightHand :: HandState
  sessionStartTime :: real
  eventCounter :: nat
  moveOrderCounter :: nat

text \<open>What \<open>processFrame\<close> returns.\<close>

record FrameResult =
  events :: "MotionEvent list"
  leftMetrics :: "HandData option"
  rightMetrics :: "HandData option"

definition createHandState :: "TrackerConfig \<Rightarrow> HandState" where
  "createHandState cfg =
     \<lparr>isMoving = False,
      motionStartTime = None,
      lastPosition = None,
      totalDistance = 0,
      velocityBuffer = VelocityBuffer_new (smoothingFrames cfg),
      framesBelowThreshold = 0,
      framesAboveThreshold = 0\<rparr>"

text \<open>
  The constructor stores the configuration and creates both hand states; the field
  initialisers set \<open>sessionStartTime\<close> and both counters to 0.  It has no \<open>throw\<close>; the
  result is a sum so that a rejection could be told from an accepted configuration.
\<close>

definition MotionAnalyzer_new :: "TrackerConfig \<Rightarrow> error + MotionAnalyzer" where
  "MotionAnalyzer_new cfg =
     Inr \<lparr>config = cfg,
          leftHand = createHandState cfg,
          rightHand = createHandState cfg,
          sessionStartTime = 0,
          eventCounter = 0,
          moveOrderCounter = 0\<rparr>"

text \<open>\<open>resetSession\<close>; the argument \<open>now\<close> is the value \<open>performance.now()\<close> returns.\<close>

definition resetSession :: "MotionAnalyzer \<Rightarrow> real \<Rightarrow> MotionAnalyzer" where
  "resetSession this now =
     this\<lparr>sessionStartTime := now,
          eventCounter := 0,
          moveOrderCounter := 0,
          leftHand := createHandState (config this),
          rightHand := createHandState (config this)\<rparr>"

text \<open>Decimal rendering of a counter inside the template string \<open>`evt_${...}`\<close>.\<close>

fun show_nat :: "nat \<Rightarrow> string" where
  "show_nat n =
     (if n < 10 then [''0123456789'' ! n]
      else show_nat (n div 10) @ [''0123456789'' ! (n mod 10)])"

declare show_nat.simps [simp del]

text \<open>
  Lines 100-107 of \<open>analyzeHand\<close>: the midpoint of landmark 0 (wrist) and landmark 9
  (middle-finger MCP).
\<close>

definition currentPos_of :: "Point list \<Rightarrow> Point" where
  "currentPos_of lms =
     (let p1 = lms ! 0; p2 = lms ! 9
      in \<lparr>x = (x p1 + x p2) / 2,
          y = (y p1 + y p2) / 2,
          z = (z p1 + z p2) / 2\<rparr>)"

text \<open>
  Lines 109-121: 0 without a last position, else the planar Euclidean distance to it,
  times 100.
\<close>

definition instantaneousVelocity_of :: "Point option \<Rightarrow> Point \<Rightarrow> real" where
  "instantaneousVelocity_of lastPos currentPos =
     (case lastPos of
        None \<Rightarrow> 0
      | Some lp \<Rightarrow>
          (let dx = x currentPos - x lp;
               dy = y currentPos - y lp;
               dist = sqrt (dx * dx + dy * dy)
           in dist * 100))"

text \<open>
  Lines 127-174, the hysteresis logic.  \<open>this\<close> is read for the configuration, the
  session start and the two shared counters, and returned with the counters updated;
  \<open>state\<close> is the hand state after lines 123-124; \<open>events\<close> is the array the events are
  pushed to.  \<open>state.motionStartTime || timestamp\<close> takes \<open>timestamp\<close> when the start time
  is \<open>null\<close> and also when it is the falsy number 0.
\<close>

definition hysteresis ::
  "MotionAnalyzer \<Rightarrow> real \<Rightarrow> Handedness \<Rightarrow> HandState \<Rightarrow> real \<Rightarrow> real \<Rightarrow> MotionEvent list
     \<Rightarrow> HandState \<times> MotionAnalyzer \<times> MotionEvent list" where
  "hysteresis this ts handedness0 state instantaneousVelocity smoothedVelocity evs =
     (if \<not> isMoving state then
        (if smoothedVelocity > threshold (config this) then
           (let state1 = state\<lparr>framesAboveThreshold := framesAboveThreshold state + 1\<rparr>
            in if real (framesAboveThreshold state1) \<ge> minDurationFrames (config this) then
                 (let state2 = state1\<lparr>isMoving := True,
                                      motionStartTime := Some ts,
                                      totalDistance := 0\<rparr>;
                      this1 = this\<lparr>moveOrderCounter := moveOrderCounter this + 1\<rparr>;
                      ev = \<lparr>id_evt = ''evt_'' @ show_nat (eventCounter this1),
                            hand = handedness0,
                            type_evt = START,
                            timestamp = ts - sessionStartTime this1,
                            duration = None,
                            distance = None,
                            orderIndex = Some (moveOrderCounter this1)\<rparr>;
                      this2 = this1\<lparr>eventCounter := eventCounter this1 + 1\<rparr>
                  in (state2, this2, evs @ [ev]))
               else (state1, this, evs))
         else (state\<lparr>framesAboveThreshold := 0\<rparr>, this, evs))
      else
        (let state1 = state\<lparr>totalDistance := totalDistance state + instantaneousVelocity\<rparr>
         in if smoothedVelocity < threshold (config this) * 0.5 then
              (let state2 = state1\<lparr>framesBelowThreshold := framesBelowThreshold state1 + 1\<rparr>
               in if real (framesBelowThreshold state2) \<ge> minDurationFrames (config this) then
                    (let state3 = state2\<lparr>isMoving := False\<rparr>;
                         duration0 = ts - (case motionStartTime state3 of
                                             None \<Rightarrow> ts
                                           | Some m \<Rightarrow> if m = 0 then ts else m);
                         ev = \<lparr>id_evt = ''evt_'' @ show_nat (eventCounter this),
                               hand = handedness0,
                               type_evt = STOP,
                               timestamp = ts - sessionStartTime this,
                               duration = Some duration0,
                               distance = Some (totalDistance state3),
                               orderIndex = None\<rparr>;
                         this1 = this\<lparr>eventCounter := eventCounter this + 1\<rparr>
                     in (state3\<lparr>motionStartTime := None\<rparr>, this1, evs @ [ev]))
                  else (state2, this, evs))
            else (state1\<lparr>framesBelowThreshold := 0\<rparr>, this, evs)))"

text \<open>
  \<open>analyzeHand\<close>.  \<open>state\<close> is one of the two hand states of \<open>this\<close>; the caller stores
  the returned state back.  A \<open>null\<close> or empty landmark list takes the early return of
  lines 94-98.  On a non-empty list of fewer than ten points \<open>landmarks[9]\<close> is
  \<open>undefined\<close> and reading \<open>p2.x\<close> on line 104 throws a TypeError, before anything has
  been written.
\<close>

definition analyzeHand ::
  "MotionAnalyzer \<Rightarrow> real \<Rightarrow> Handedness \<Rightarrow> Point list option \<Rightarrow> HandState \<Rightarrow> MotionEvent list
     \<Rightarrow> error + (HandData option \<times> HandState \<times> MotionAnalyzer \<times> MotionEvent list)" where
  "analyzeHand this ts handedness0 landmarks0 state evs =
     (let lost = Inr (None,
                      state\<lparr>velocityBuffer := VelocityBuffer_add (velocityBuffer state) 0\<rparr>,
                      this, evs)
      in case landmarks0 of
           None \<Rightarrow> lost
         | Some lms \<Rightarrow>
             if length lms = 0 then lost
             else if length lms < 10 then Inl TypeError
             else
               (let currentPos = currentPos_of lms;
                    instantaneousVelocity =
                      instantaneousVelocity_of (lastPosition state) currentPos;
                    state1 = state\<lparr>lastPosition := Some currentPos\<rparr>;
                    state2 = state1\<lparr>velocityBuffer :=
                               VelocityBuffer_add (velocityBuffer state1) instantaneousVelocity\<rparr>;
                    smoothedVelocity = VelocityBuffer_average (velocityBuffer state2)
                in case hysteresis this ts handedness0 state2
                          instantaneousVelocity smoothedVelocity evs of
                     (state3, this1, evs1) \<Rightarrow>
                       Inr (Some \<lparr>handedness = handedness0,
                                  landmarks = lms,
                                  velocity = smoothedVelocity,
                                  isMoving = isMoving state3,
                                  score = 1\<rparr>,
                            state3, this1, evs1)))"

text \<open>
  \<open>processFrame\<close>: the left hand, then the right hand, on one fresh event array.  An
  exception of either call propagates to the caller.
\<close>

definition processFrame ::
  "MotionAnalyzer \<Rightarrow> real \<Rightarrow> Point list option \<Rightarrow> Point list option
     \<Rightarrow> error + (FrameResult \<times> MotionAnalyzer)" where
  "processFrame this ts leftLandmarks rightLandmarks =
     (case analyzeHand this ts Left leftLandmarks (leftHand this) [] of
        Inl e \<Rightarrow> Inl e
      | Inr (leftM, lstate, this1, evs1) \<Rightarrow>
          (let this2 = this1\<lparr>leftHand := lstate\<rparr>
           in case analyzeHand this2 ts Right rightLandmarks (rightHand this2) evs1 of
                Inl e \<Rightarrow> Inl e
              | Inr (rightM, rstate, this3, evs2) \<Rightarrow>
                  Inr (\<lparr>events = evs2, leftMetrics = leftM, rightMetrics = rightM\<rparr>,
                       this3\<lparr>rightHand := rstate\<rparr>)))"

section \<open>Sessions: a sequence of processFrame calls\<close>

text \<open>
  One call of \<open>processFrame\<close>: the timestamp, the left and the right landmark list
  (\<open>None\<close> for \<open>null\<close>).
\<close>

type_synonym frame = "real \<times> Point list option \<times> Point list option"

text \<open>
  The caller's frame loop (\<open>handleFrame\<close> in src/App.tsx, driven by \<open>loop\<close> in
  src/components/CameraView.tsx): each frame is handed to the same analyzer.  The list
  holds, for every call that returned, its result and the analyzer after it.  A call
  that throws ends the run: the exception leaves \<open>loop\<close> before the next animation
  frame is requested.
\<close>

fun run :: "MotionAnalyzer \<Rightarrow> frame list \<Rightarrow> (FrameResult \<times> MotionAnalyzer) list" where
  "run this [] = []"
| "run this ((ts, l, r) # fs) =
     (case processFrame this ts l r of
        Inl e \<Rightarrow> []
      | Inr ret \<Rightarrow> ret # run (snd ret) fs)"

text \<open>The session log: \<open>setEvents(prev => [...prev, ...analysis.events])\<close>.\<close>

definition session_log :: "MotionAnalyzer \<Rightarrow> frame list \<Rightarrow> MotionEvent list" where
  "session_log this fs = concat (map (\<lambda>ret. events (fst ret)) (run this fs))"

section \<open>Vocabulary of the properties\<close>

text \<open>The hand state a handedness selects, and its landmark list in a frame.\<close>

fun hand_state :: "Handedness \<Rightarrow> MotionAnalyzer \<Rightarrow> HandState" where
  "hand_state Left this = leftHand this"
| "hand_state Right this = rightHand this"

fun landmarks_for :: "Handedness \<Rightarrow> frame \<Rightarrow> Point list option" where
  "landmarks_for Left (ts, l, r) = l"
| "landmarks_for Right (ts, l, r) = r"

fun metrics_for :: "Handedness \<Rightarrow> FrameResult \<Rightarrow> HandData option" where
  "metrics_for Left res = leftMetrics res"
| "metrics_for Right res = rightMetrics res"

text \<open>The guard of line 94, \<open>!landmarks || landmarks.length === 0\<close>: the hand is absent.\<close>

fun hand_lost :: "Point list option \<Rightarrow> bool" where
  "hand_lost None = True"
| "hand_lost (Some lms) = (length lms = 0)"

text \<open>A non-empty landmark list without an element 9.\<close>

definition short_list :: "Point list option \<Rightarrow> bool" where
  "short_list lm = (case lm of None \<Rightarrow> False | Some lms \<Rightarrow> 0 < length lms \<and> length lms < 10)"

text \<open>
  A frame shows a hand at the representative point \<open>q\<close>; a window of capacity \<open>c\<close>
  that holds no more than \<open>c\<close> samples.
\<close>

definition fixed_at :: "Handedness \<Rightarrow> Point \<Rightarrow> frame \<Rightarrow> bool" where
  "fixed_at h q f =
     (case landmarks_for h f of
        None \<Rightarrow> False
      | Some lms \<Rightarrow> 10 \<le> length lms \<and> currentPos_of lms = q)"

definition window_ok :: "nat \<Rightarrow> HandState \<Rightarrow> bool" where
  "window_ok c st =
     (size_vb (velocityBuffer st) = real c \<and> length (buffer (velocityBuffer st)) \<le> c)"

text \<open>Every field of a hand state but the smoothing window is the same.\<close>

definition same_but_window :: "HandState \<Rightarrow> HandState \<Rightarrow> bool" where
  "same_but_window st st' =
     (isMoving st' = isMoving st \<and> motionStartTime st' = motionStartTime st
      \<and> lastPosition st' = lastPosition st \<and> totalDistance st' = totalDistance st
      \<and> framesBelowThreshold st' = framesBelowThreshold st
      \<and> framesAboveThreshold st' = framesAboveThreshold st)"

text \<open>The events of one hand, in the order of the log.\<close>

definition events_of :: "Handedness \<Rightarrow> MotionEvent list \<Rightarrow> MotionEvent list" where
  "events_of h evs = filter (\<lambda>e. hand e = h) evs"

fun other_type :: "EventType \<Rightarrow> EventType" where
  "other_type START = STOP"
| "other_type STOP = START"

text \<open>
  \<open>alternating t evs\<close>: the first event has type \<open>t\<close> and the types alternate from there;
  the list may end on either type.
\<close>

fun alternating :: "EventType \<Rightarrow> MotionEvent list \<Rightarrow> bool" where
  "alternating t [] = True"
| "alternating t (e # es) = (type_evt e = t \<and> alternating (other_type t) es)"

text \<open>The START events of a log, and the ordinals they carry.\<close>

definition starts :: "MotionEvent list \<Rightarrow> MotionEvent list" where
  "starts evs = filter (\<lambda>e. type_evt e = START) evs"

fun start_orders :: "MotionEvent list \<Rightarrow> nat list" where
  "start_orders [] = []"
| "start_orders (e # es) =
     (case (type_evt e, orderIndex e) of
        (START, Some n) \<Rightarrow> n # start_orders es
      | _ \<Rightarrow> start_orders es)"

text \<open>
  The analyzer as it is when call number \<open>i\<close> (from 0) of a run begins, the events that
  call returns, and the raw speed line 109-121 computes for a hand in a frame (an absent
  hand has none and counts 0).
\<close>

definition state_before :: "MotionAnalyzer \<Rightarrow> frame list \<Rightarrow> nat \<Rightarrow> MotionAnalyzer" where
  "state_before this fs i = (this # map snd (run this fs)) ! i"

definition frame_events :: "MotionAnalyzer \<Rightarrow> frame list \<Rightarrow> nat \<Rightarrow> MotionEvent list" where
  "frame_events this fs i = events (fst (run this fs ! i))"

definition hand_speed :: "HandState \<Rightarrow> Point list option \<Rightarrow> real" where
  "hand_speed st lm =
     (case lm of
        None \<Rightarrow> 0
      | Some lms \<Rightarrow>
          if length lms = 0 then 0
          else instantaneousVelocity_of (lastPosition st) (currentPos_of lms))"

definition raw_speed :: "Handedness \<Rightarrow> MotionAnalyzer \<Rightarrow> frame \<Rightarrow> real" where
  "raw_speed h this f = hand_speed (hand_state h this) (landmarks_for h f)"

text \<open>
  The smoothed velocity line 125 reads for a visible hand in a frame: the average of the
  window after the frame's raw speed has been pushed.
\<close>

definition smoothed_speed :: "Handedness \<Rightarrow> MotionAnalyzer \<Rightarrow> frame \<Rightarrow> real" where
  "smoothed_speed h this f =
     VelocityBuffer_average
       (VelocityBuffer_add (velocityBuffer (hand_state h this)) (raw_speed h this f))"

section \<open>Concrete sessions\<close>

text \<open>\<open>TRACKER_CONFIG\<close> of src/App.tsx.\<close>

definition TRACKER_CONFIG :: TrackerConfig where
  "TRACKER_CONFIG = \<lparr>threshold = 0.8, smoothingFrames = 5, minDurationFrames = 5\<rparr>"

text \<open>\<open>new MotionAnalyzer(cfg)\<close> followed by \<open>resetSession()\<close> at time \<open>now\<close>.\<close>

definition new_session :: "TrackerConfig \<Rightarrow> real \<Rightarrow> MotionAnalyzer" where
  "new_session cfg now = resetSession (projr (MotionAnalyzer_new cfg)) now"

text \<open>
  A detected hand, 21 landmarks as MediaPipe delivers them, all at \<open>(px, 0, 0)\<close>: its
  representative point is \<open>(px, 0, 0)\<close>, and moving it by \<open>d\<close> along the first axis is a
  raw speed of \<open>100 * d\<close>.
\<close>

definition hand_at :: "real \<Rightarrow> Point list option" where
  "hand_at px = Some (replicate 21 \<lparr>x = px, y = 0, z = 0\<rparr>)"

text \<open>What is read off a call in the evaluations below.\<close>

definition readout ::
  "FrameResult \<times> MotionAnalyzer \<Rightarrow> MotionEvent list \<times> real option \<times> real list" where
  "readout ret =
     (events (fst ret),
      map_option velocity (leftMetrics (fst ret)),
      buffer (velocityBuffer (leftHand (snd ret))))"

text \<open>The left hand's state after a call: moving flag, both debounce counters.\<close>

definition left_flags :: "FrameResult \<times> MotionAnalyzer \<Rightarrow> bool \<times> nat \<times> nat" where
  "left_flags ret =
     (isMoving (leftHand (snd ret)),
      framesAboveThreshold (leftHand (snd ret)),
      framesBelowThreshold (leftHand (snd ret)))"

text \<open>
  Scenario A: one frame fixes the left hand's position, then ten frames at timestamps
  0..9 move it by 0.02 each, a raw speed of 2.0 in every one of the ten.
\<close>

definition steady_frames :: "frame list" where
  "steady_frames = map (\<lambda>k. (real k, hand_at (real (Suc k) / 50), None)) [0..<10]"

definition primed_frames :: "frame list" where
  "primed_frames = (- 1, hand_at 0, None) # steady_frames"

text \<open>
  Scenario B: ten frames at timestamps 0..9 on a fresh session, the hand moving by 0.02
  from each to the next; the first frame has no last position and therefore raw speed
  0, the other nine have raw speed 2.0.
\<close>

definition unprimed_frames :: "frame list" where
  "unprimed_frames = map (\<lambda>k. (real k, hand_at (real k / 50), None)) [0..<10]"

text \<open>
  Scenario B': the ten frames of scenario A on a state no call sequence produces, a
  fresh session whose left hand already has the last position \<open>(0, 0, 0)\<close> and an
  empty window: the only state in which each of ten frames has raw speed 2.0 and the
  window holds nothing else.
\<close>

definition seeded_session :: MotionAnalyzer where
  "seeded_session =
     (new_session TRACKER_CONFIG 0)
       \<lparr>leftHand := (createHandState TRACKER_CONFIG)
                      \<lparr>lastPosition := Some \<lparr>x = 0, y = 0, z = 0\<rparr>\<rparr>\<rparr>"

text \<open>
  Scenario C: the clock stands at 0 for the first six frames while the hand moves at raw
  speed 2.0, then the hand rests at timestamps 1..9.
\<close>

definition zero_clock_frames :: "frame list" where
  "zero_clock_frames =
     map (\<lambda>k. (0, hand_at (real k / 50), None)) [0..<6]
     @ map (\<lambda>k. (real k, hand_at (5 / 50), None)) [1..<10]"

text \<open>
  Scenario D: a jump at timestamp 1 and rest until 11; a second jump at timestamp 12,
  four small moves (raw speed 0.1) at 13..16, then ten frames at a fixed position.
\<close>

definition two_run_moves :: "frame list" where
  "two_run_moves =
     (0, hand_at 0, None)
     # map (\<lambda>k. (real k, hand_at 1, None)) [1..<12]
     @ [(12, hand_at 2, None), (13, hand_at (2001 / 1000), None),
        (14, hand_at (2002 / 1000), None), (15, hand_at (2003 / 1000), None),
        (16, hand_at (2004 / 1000), None)]"

definition fixed_frames :: "frame list" where
  "fixed_frames = map (\<lambda>k. (real k, hand_at (2004 / 1000), None)) [17..<27]"

definition two_run_frames :: "frame list" where
  "two_run_frames = two_run_moves @ fixed_frames"

text \<open>
  Scenario E: ten frames at raw speed 2.0 (scenario B), then the hand is absent for ten
  frames, then it is seen again where it was last seen.
\<close>

definition absent_frames :: "frame list" where
  "absent_frames = map (\<lambda>k. (real k, None, None)) [10..<20]"

definition reappear_frames :: "frame list" where
  "reappear_frames = map (\<lambda>k. (real k, hand_at (9 / 50), None)) [20..<25]"

text \<open>Scenario F: both hands move at raw speed 2.0 from the second frame on.\<close>

definition both_hands_frames :: "frame list" where
  "both_hands_frames =
     map (\<lambda>k. (real k, hand_at (real k / 50), hand_at (real k / 50))) [0..<7]"

text \<open>Configurations the specification calls invalid.\<close>

definition zero_config :: TrackerConfig where
  "zero_config = \<lparr>threshold = 0, smoothingFrames = 0, minDurationFrames = 0\<rparr>"

section \<open>Evaluation of the concrete sessions\<close>

lemma sqrt_2500: "sqrt 2500 = 50"
  using real_sqrt_abs2 [of 50] by simp

lemma sqrt_1000000: "sqrt 1000000 = 1000"
  using real_sqrt_abs2 [of 1000] by simp

lemmas model_defs =
  processFrame_def analyzeHand_def hysteresis_def currentPos_of_def
  instantaneousVelocity_of_def VelocityBuffer_add_def VelocityBuffer_average_def
  VelocityBuffer_new_def createHandState_def resetSession_def MotionAnalyzer_new_def
  new_session_def hand_at_def TRACKER_CONFIG_def Let_def

lemmas eval_simps =
  model_defs readout_def left_flags_def sqrt_2500 sqrt_1000000 real_sqrt_divide
  show_nat.simps upt_conv_Cons

lemma nth_readout:
  "map readout rs = vs \<Longrightarrow> i < length vs \<Longrightarrow> readout (rs ! i) = vs ! i"
  by (metis length_map nth_map)

lemma log_readout:
  "map readout rs = vs \<Longrightarrow> concat (map (\<lambda>ret. events (fst ret)) rs) = concat (map fst vs)"
  by (induction rs arbitrary: vs) (auto simp: readout_def)

lemma primed_run:
  "map readout (run (new_session TRACKER_CONFIG 0) primed_frames) =
     [([], Some 0, [0]),
      ([], Some 1, [0, 2]),
      ([], Some (4 / 3), [0, 2, 2]),
      ([], Some (3 / 2), [0, 2, 2, 2]),
      ([], Some (8 / 5), [0, 2, 2, 2, 2]),
      ([\<lparr>id_evt = ''evt_0'', hand = Left, type_evt = START, timestamp = 4,
         duration = None, distance = None, orderIndex = Some 1\<rparr>],
       Some 2, [2, 2, 2, 2, 2]),
      ([], Some 2, [2, 2, 2, 2, 2]),
      ([], Some 2, [2, 2, 2, 2, 2]),
      ([], Some 2, [2, 2, 2, 2, 2]),
      ([], Some 2, [2, 2, 2, 2, 2]),
      ([], Some 2, [2, 2, 2, 2, 2])]"
  by (simp add: eval_simps primed_frames_def steady_frames_def)

lemma unprimed_run:
  "map readout (run (new_session TRACKER_CONFIG 0) unprimed_frames) =
     [([], Some 0, [0]),
      ([], Some 1, [0, 2]),
      ([], Some (4 / 3), [0, 2, 2]),
      ([], Some (3 / 2), [0, 2, 2, 2]),
      ([], Some (8 / 5), [0, 2, 2, 2, 2]),
      ([\<lparr>id_evt = ''evt_0'', hand = Left, type_evt = START, timestamp = 5,
         duration = None, distance = None, orderIndex = Some 1\<rparr>],
       Some 2, [2, 2, 2, 2, 2]),
      ([], Some 2, [2, 2, 2, 2, 2]),
      ([], Some 2, [2, 2, 2, 2, 2]),
      ([], Some 2, [2, 2, 2, 2, 2]),
      ([], Some 2, [2, 2, 2, 2, 2])]"
  by (simp add: eval_simps unprimed_frames_def)

lemma seeded_run:
  "map readout (run seeded_session steady_frames) =
     [([], Some 2, [2]),
      ([], Some 2, [2, 2]),
      ([], Some 2, [2, 2, 2]),
      ([], Some 2, [2, 2, 2, 2]),
      ([\<lparr>id_evt = ''evt_0'', hand = Left, type_evt = START, timestamp = 4,
         duration = None, distance = None, orderIndex = Some 1\<rparr>],
       Some 2, [2, 2, 2, 2, 2]),
      ([], Some 2, [2, 2, 2, 2, 2]),
      ([], Some 2, [2, 2, 2, 2, 2]),
      ([], Some 2, [2, 2, 2, 2, 2]),
      ([], Some 2, [2, 2, 2, 2, 2]),
      ([], Some 2, [2, 2, 2, 2, 2])]"
  by (simp add: eval_simps seeded_session_def steady_frames_def)

lemma zero_clock_run:
  "map readout (run (new_session TRACKER_CONFIG 0) zero_clock_frames) =
     [([], Some 0, [0]),
      ([], Some 1, [0, 2]),
      ([], Some (4 / 3), [0, 2, 2]),
      ([], Some (3 / 2), [0, 2, 2, 2]),
      ([], Some (8 / 5), [0, 2, 2, 2, 2]),
      ([\<lparr>id_evt = ''evt_0'', hand = Left, type_evt = START, timestamp = 0,
         duration = None, distance = None, orderIndex = Some 1\<rparr>],
       Some 2, [2, 2, 2, 2, 2]),
      ([], Some (8 / 5), [2, 2, 2, 2, 0]),
      ([], Some (6 / 5), [2, 2, 2, 0, 0]),
      ([], Some (4 / 5), [2, 2, 0, 0, 0]),
      ([], Some (2 / 5), [2, 0, 0, 0, 0]),
      ([], Some 0, [0, 0, 0, 0, 0]),
      ([], Some 0, [0, 0, 0, 0, 0]),
      ([], Some 0, [0, 0, 0, 0, 0]),
      ([], Some 0, [0, 0, 0, 0, 0]),
      ([\<lparr>id_evt = ''evt_1'', hand = Left, type_evt = STOP, timestamp = 9,
         duration = Some 0, distance = Some 0, orderIndex = None\<rparr>],
       Some 0, [0, 0, 0, 0, 0])]"
  by (simp add: eval_simps zero_clock_frames_def)

lemma both_hands_run:
  "map (\<lambda>ret. events (fst ret)) (run (new_session TRACKER_CONFIG 0) both_hands_frames) =
     [[], [], [], [], [],
      [\<lparr>id_evt = ''evt_0'', hand = Left, type_evt = START, timestamp = 5,
         duration = None, distance = None, orderIndex = Some 1\<rparr>,
       \<lparr>id_evt = ''evt_1'', hand = Right, type_evt = START, timestamp = 5,
         duration = None, distance = None, orderIndex = Some 2\<rparr>],
      []]"
  by (simp add: eval_simps both_hands_frames_def)

lemma two_run_run:
  "map readout (run (new_session TRACKER_CONFIG 0) two_run_frames) =
     [([], Some 0, [0]),
      ([], Some 50, [0, 100]),
      ([], Some (100 / 3), [0, 100, 0]),
      ([], Some 25, [0, 100, 0, 0]),
      ([], Some 20, [0, 100, 0, 0, 0]),
      ([\<lparr>id_evt = ''evt_0'', hand = Left, type_evt = START, timestamp = 5,
         duration = None, distance = None, orderIndex = Some 1\<rparr>],
       Some 20, [100, 0, 0, 0, 0]),
      ([], Some 0, [0, 0, 0, 0, 0]),
      ([], Some 0, [0, 0, 0, 0, 0]),
      ([], Some 0, [0, 0, 0, 0, 0]),
      ([], Some 0, [0, 0, 0, 0, 0]),
      ([\<lparr>id_evt = ''evt_1'', hand = Left, type_evt = STOP, timestamp = 10,
         duration = Some 5, distance = Some 0, orderIndex = None\<rparr>],
       Some 0, [0, 0, 0, 0, 0]),
      ([], Some 0, [0, 0, 0, 0, 0]),
      ([], Some 20, [0, 0, 0, 0, 100]),
      ([], Some (1001 / 50), [0, 0, 0, 100, 1 / 10]),
      ([], Some (501 / 25), [0, 0, 100, 1 / 10, 1 / 10]),
      ([], Some (1003 / 50), [0, 100, 1 / 10, 1 / 10, 1 / 10]),
      ([\<lparr>id_evt = ''evt_2'', hand = Left, type_evt = START, timestamp = 16,
         duration = None, distance = None, orderIndex = Some 2\<rparr>],
       Some (502 / 25), [100, 1 / 10, 1 / 10, 1 / 10, 1 / 10]),
      ([\<lparr>id_evt = ''evt_3'', hand = Left, type_evt = STOP, timestamp = 17,
         duration = Some 1, distance = Some 0, orderIndex = None\<rparr>],
       Some (2 / 25), [1 / 10, 1 / 10, 1 / 10, 1 / 10, 0]),
      ([], Some (3 / 50), [1 / 10, 1 / 10, 1 / 10, 0, 0]),
      ([], Some (1 / 25), [1 / 10, 1 / 10, 0, 0, 0]),
      ([], Some (1 / 50), [1 / 10, 0, 0, 0, 0]),
      ([], Some 0, [0, 0, 0, 0, 0]),
      ([], Some 0, [0, 0, 0, 0, 0]),
      ([], Some 0, [0, 0, 0, 0, 0]),
      ([], Some 0, [0, 0, 0, 0, 0]),
      ([], Some 0, [0, 0, 0, 0, 0]),
      ([], Some 0, [0, 0, 0, 0, 0])]"
  by (simp add: eval_simps two_run_frames_def two_run_moves_def fixed_frames_def)

lemma two_run_flags:
  "map left_flags (run (new_session TRACKER_CONFIG 0) two_run_frames) =
     [(False, 0, 0), (False, 1, 0), (False, 2, 0), (False, 3, 0), (False, 4, 0),
      (True, 5, 0), (True, 5, 1), (True, 5, 2), (True, 5, 3), (True, 5, 4),
      (False, 5, 5), (False, 0, 5), (False, 1, 5), (False, 2, 5), (False, 3, 5),
      (False, 4, 5), (True, 5, 5), (False, 5, 6), (False, 0, 6), (False, 0, 6),
      (False, 0, 6), (False, 0, 6), (False, 0, 6), (False, 0, 6), (False, 0, 6),
      (False, 0, 6), (False, 0, 6)]"
  by (simp add: eval_simps two_run_frames_def two_run_moves_def fixed_frames_def)

lemma absence_run:
  "map readout (run (new_session TRACKER_CONFIG 0)
       (unprimed_frames @ absent_frames @ reappear_frames)) =
     [([], Some 0, [0]),
      ([], Some 1, [0, 2]),
      ([], Some (4 / 3), [0, 2, 2]),
      ([], Some (3 / 2), [0, 2, 2, 2]),
      ([], Some (8 / 5), [0, 2, 2, 2, 2]),
      ([\<lparr>id_evt = ''evt_0'', hand = Left, type_evt = START, timestamp = 5,
         duration = None, distance = None, orderIndex = Some 1\<rparr>],
       Some 2, [2, 2, 2, 2, 2]),
      ([], Some 2, [2, 2, 2, 2, 2]),
      ([], Some 2, [2, 2, 2, 2, 2]),
      ([], Some 2, [2, 2, 2, 2, 2]),
      ([], Some 2, [2, 2, 2, 2, 2]),
      ([], None, [2, 2, 2, 2, 0]),
      ([], None, [2, 2, 2, 0, 0]),
      ([], None, [2, 2, 0, 0, 0]),
      ([], None, [2, 0, 0, 0, 0]),
      ([], None, [0, 0, 0, 0, 0]),
      ([], None, [0, 0, 0, 0, 0]),
      ([], None, [0, 0, 0, 0, 0]),
      ([], None, [0, 0, 0, 0, 0]),
      ([], None, [0, 0, 0, 0, 0]),
      ([], None, [0, 0, 0, 0, 0]),
      ([], Some 0, [0, 0, 0, 0, 0]),
      ([], Some 0, [0, 0, 0, 0, 0]),
      ([], Some 0, [0, 0, 0, 0, 0]),
      ([], Some 0, [0, 0, 0, 0, 0]),
      ([\<lparr>id_evt = ''evt_1'', hand = Left, type_evt = STOP, timestamp = 24,
         duration = Some 19, distance = Some 8, orderIndex = None\<rparr>],
       Some 0, [0, 0, 0, 0, 0])]"
  by (simp add: eval_simps unprimed_frames_def absent_frames_def reappear_frames_def)

lemma absence_only_run:
  "map readout (run (new_session TRACKER_CONFIG 0) (unprimed_frames @ absent_frames)) =
     [([], Some 0, [0]),
      ([], Some 1, [0, 2]),
      ([], Some (4 / 3), [0, 2, 2]),
      ([], Some (3 / 2), [0, 2, 2, 2]),
      ([], Some (8 / 5), [0, 2, 2, 2, 2]),
      ([\<lparr>id_evt = ''evt_0'', hand = Left, type_evt = START, timestamp = 5,
         duration = None, distance = None, orderIndex = Some 1\<rparr>],
       Some 2, [2, 2, 2, 2, 2]),
      ([], Some 2, [2, 2, 2, 2, 2]),
      ([], Some 2, [2, 2, 2, 2, 2]),
      ([], Some 2, [2, 2, 2, 2, 2]),
      ([], Some 2, [2, 2, 2, 2, 2]),
      ([], None, [2, 2, 2, 2, 0]),
      ([], None, [2, 2, 2, 0, 0]),
      ([], None, [2, 2, 0, 0, 0]),
      ([], None, [2, 0, 0, 0, 0]),
      ([], None, [0, 0, 0, 0, 0]),
      ([], None, [0, 0, 0, 0, 0]),
      ([], None, [0, 0, 0, 0, 0]),
      ([], None, [0, 0, 0, 0, 0]),
      ([], None, [0, 0, 0, 0, 0]),
      ([], None, [0, 0, 0, 0, 0])]"
  by (simp add: eval_simps unprimed_frames_def absent_frames_def)

lemma absence_only_flags:
  "map left_flags (run (new_session TRACKER_CONFIG 0) (unprimed_frames @ absent_frames)) =
     [(False, 0, 0), (False, 1, 0), (False, 2, 0), (False, 3, 0), (False, 4, 0),
      (True, 5, 0), (True, 5, 0), (True, 5, 0), (True, 5, 0), (True, 5, 0),
      (True, 5, 0), (True, 5, 0), (True, 5, 0), (True, 5, 0), (True, 5, 0),
      (True, 5, 0), (True, 5, 0), (True, 5, 0), (True, 5, 0), (True, 5, 0)]"
  by (simp add: eval_simps unprimed_frames_def absent_frames_def)

section \<open>One call: what a hand can do in a frame\<close>

lemma hysteresis_cases:
  assumes H: "hysteresis this ts h st iv sv evs = (st', this', evs')"
  obtains
    (quiet) "evs' = evs" "this' = this" "isMoving st' = isMoving st"
      "motionStartTime st' = motionStartTime st" "lastPosition st' = lastPosition st"
      "velocityBuffer st' = velocityBuffer st"
      "totalDistance st' = (if isMoving st then totalDistance st + iv else totalDistance st)"
  | (start) "\<not> isMoving st" "isMoving st'" "totalDistance st' = 0"
      "motionStartTime st' = Some ts" "lastPosition st' = lastPosition st"
      "velocityBuffer st' = velocityBuffer st"
      "evs' = evs @ [\<lparr>id_evt = ''evt_'' @ show_nat (eventCounter this), hand = h,
                       type_evt = START, timestamp = ts - sessionStartTime this,
                       duration = None, distance = None,
                       orderIndex = Some (Suc (moveOrderCounter this))\<rparr>]"
      "this' = this\<lparr>moveOrderCounter := Suc (moveOrderCounter this),
                     eventCounter := Suc (eventCounter this)\<rparr>"
  | (stop) "isMoving st" "\<not> isMoving st'" "motionStartTime st' = None"
      "lastPosition st' = lastPosition st" "velocityBuffer st' = velocityBuffer st"
      "evs' = evs @ [\<lparr>id_evt = ''evt_'' @ show_nat (eventCounter this), hand = h,
                       type_evt = STOP, timestamp = ts - sessionStartTime this,
                       duration = Some (ts - (case motionStartTime st of None \<Rightarrow> ts
                                              | Some m \<Rightarrow> if m = 0 then ts else m)),
                       distance = Some (totalDistance st + iv),
                       orderIndex = None\<rparr>]"
      "this' = this\<lparr>eventCounter := Suc (eventCounter this)\<rparr>"
proof -
  let ?thr = "threshold (config this)"
  let ?md = "minDurationFrames (config this)"
  consider
      (a) "\<not> isMoving st" "sv > ?thr" "real (framesAboveThreshold st + 1) \<ge> ?md"
    | (b) "\<not> isMoving st" "sv > ?thr" "\<not> real (framesAboveThreshold st + 1) \<ge> ?md"
    | (c) "\<not> isMoving st" "\<not> sv > ?thr"
    | (d) "isMoving st" "sv < ?thr * 0.5" "real (framesBelowThreshold st + 1) \<ge> ?md"
    | (e) "isMoving st" "sv < ?thr * 0.5" "\<not> real (framesBelowThreshold st + 1) \<ge> ?md"
    | (f) "isMoving st" "\<not> sv < ?thr * 0.5"
    by blast
  then show thesis
  proof cases
    case a
    with H have *: "st' = st\<lparr>framesAboveThreshold := framesAboveThreshold st + 1,
                     isMoving := True, motionStartTime := Some ts, totalDistance := 0\<rparr>"
      and "this' = this\<lparr>moveOrderCounter := Suc (moveOrderCounter this),
                     eventCounter := Suc (eventCounter this)\<rparr>"
      and "evs' = evs @ [\<lparr>id_evt = ''evt_'' @ show_nat (eventCounter this), hand = h,
                       type_evt = START, timestamp = ts - sessionStartTime this,
                       duration = None, distance = None,
                       orderIndex = Some (Suc (moveOrderCounter this))\<rparr>]"
      by (simp_all add: hysteresis_def Let_def)
    with a show ?thesis by (intro start) simp_all
  next
    case b
    with H have "st' = st\<lparr>framesAboveThreshold := framesAboveThreshold st + 1\<rparr>"
      "this' = this" "evs' = evs"
      by (simp_all add: hysteresis_def Let_def)
    with b show ?thesis by (intro quiet) simp_all
  next
    case c
    with H have "st' = st\<lparr>framesAboveThreshold := 0\<rparr>" "this' = this" "evs' = evs"
      by (simp_all add: hysteresis_def Let_def)
    with c show ?thesis by (intro quiet) simp_all
  next
    case d
    with H have "st' = st\<lparr>totalDistance := totalDistance st + iv,
                     framesBelowThreshold := framesBelowThreshold st + 1,
                     isMoving := False, motionStartTime := None\<rparr>"
      and "this' = this\<lparr>eventCounter := Suc (eventCounter this)\<rparr>"
      and "evs' = evs @ [\<lparr>id_evt = ''evt_'' @ show_nat (eventCounter this), hand = h,
                       type_evt = STOP, timestamp = ts - sessionStartTime this,
                       duration = Some (ts - (case motionStartTime st of None \<Rightarrow> ts
                                              | Some m \<Rightarrow> if m = 0 then ts else m)),
                       distance = Some (totalDistance st + iv),
                       orderIndex = None\<rparr>]"
      by (simp_all add: hysteresis_def Let_def)
    with d show ?thesis by (intro stop) simp_all
  next
    case e
    with H have "st' = st\<lparr>totalDistance := totalDistance st + iv,
                     framesBelowThreshold := framesBelowThreshold st + 1\<rparr>"
      "this' = this" "evs' = evs"
      by (simp_all add: hysteresis_def Let_def)
    with e show ?thesis by (intro quiet) simp_all
  next
    case f
    with H have "st' = st\<lparr>totalDistance := totalDistance st + iv,
                     framesBelowThreshold := 0\<rparr>"
      "this' = this" "evs' = evs"
      by (simp_all add: hysteresis_def Let_def)
    with f show ?thesis by (intro quiet) simp_all
  qed
qed

lemma analyzeHand_lost:
  "hand_lost lm \<Longrightarrow>
     analyzeHand this ts h lm st evs =
       Inr (None, st\<lparr>velocityBuffer := VelocityBuffer_add (velocityBuffer st) 0\<rparr>, this, evs)"
  by (cases lm) (simp_all add: analyzeHand_def Let_def)

lemma analyzeHand_short:
  "0 < length lms \<Longrightarrow> length lms < 10 \<Longrightarrow>
     analyzeHand this ts h (Some lms) st evs = Inl TypeError"
  by (simp add: analyzeHand_def Let_def)

lemma analyzeHand_seen:
  assumes "10 \<le> length lms"
  shows "analyzeHand this ts h (Some lms) st evs =
           (case hysteresis this ts h
                   (st\<lparr>lastPosition := Some (currentPos_of lms),
                        velocityBuffer := VelocityBuffer_add (velocityBuffer st)
                                            (hand_speed st (Some lms))\<rparr>)
                   (hand_speed st (Some lms))
                   (VelocityBuffer_average
                      (VelocityBuffer_add (velocityBuffer st) (hand_speed st (Some lms))))
                   evs of
              (st3, this1, evs1) \<Rightarrow>
                Inr (Some \<lparr>handedness = h, landmarks = lms,
                           velocity = VelocityBuffer_average
                             (VelocityBuffer_add (velocityBuffer st) (hand_speed st (Some lms))),
                           isMoving = isMoving st3, score = 1\<rparr>,
                     st3, this1, evs1))"
  using assms by (auto simp: analyzeHand_def Let_def hand_speed_def split: prod.splits)

lemma hand_speed_lost: "hand_lost lm \<Longrightarrow> hand_speed st lm = 0"
  by (cases lm) (simp_all add: hand_speed_def)

lemma analyzeHand_cases:
  assumes A: "analyzeHand this ts h lm st evs = Inr (m, st', this', evs')"
  obtains
    (quiet) "evs' = evs" "this' = this" "isMoving st' = isMoving st"
      "motionStartTime st' = motionStartTime st"
      "totalDistance st' =
         (if isMoving st then totalDistance st + hand_speed st lm else totalDistance st)"
  | (start) "\<not> hand_lost lm" "\<not> isMoving st" "isMoving st'" "totalDistance st' = 0"
      "motionStartTime st' = Some ts"
      "evs' = evs @ [\<lparr>id_evt = ''evt_'' @ show_nat (eventCounter this), hand = h,
                       type_evt = START, timestamp = ts - sessionStartTime this,
                       duration = None, distance = None,
                       orderIndex = Some (Suc (moveOrderCounter this))\<rparr>]"
      "this' = this\<lparr>moveOrderCounter := Suc (moveOrderCounter this),
                     eventCounter := Suc (eventCounter this)\<rparr>"
  | (stop) "\<not> hand_lost lm" "isMoving st" "\<not> isMoving st'" "motionStartTime st' = None"
      "evs' = evs @ [\<lparr>id_evt = ''evt_'' @ show_nat (eventCounter this), hand = h,
                       type_evt = STOP, timestamp = ts - sessionStartTime this,
                       duration = Some (ts - (case motionStartTime st of None \<Rightarrow> ts
                                              | Some m \<Rightarrow> if m = 0 then ts else m)),
                       distance = Some (totalDistance st + hand_speed st lm),
                       orderIndex = None\<rparr>]"
      "this' = this\<lparr>eventCounter := Suc (eventCounter this)\<rparr>"
proof (cases "hand_lost lm")
  case True
  with A show ?thesis
    by (intro quiet) (auto simp: analyzeHand_lost hand_speed_lost)
next
  case False
  then obtain lms where lm: "lm = Some lms" and pos: "0 < length lms"
    by (cases lm) auto
  have len: "10 \<le> length lms"
  proof (rule ccontr)
    assume "\<not> 10 \<le> length lms"
    with pos have "analyzeHand this ts h (Some lms) st evs = Inl TypeError"
      by (intro analyzeHand_short) simp_all
    with A lm show False by simp
  qed
  let ?iv = "hand_speed st lm"
  let ?st2 = "st\<lparr>lastPosition := Some (currentPos_of lms),
                  velocityBuffer := VelocityBuffer_add (velocityBuffer st) ?iv\<rparr>"
  let ?sv = "VelocityBuffer_average (VelocityBuffer_add (velocityBuffer st) ?iv)"
  from A lm len have H: "hysteresis this ts h ?st2 ?iv ?sv evs = (st', this', evs')"
    by (simp add: analyzeHand_seen split: prod.splits)
  from H show ?thesis
  proof (cases rule: hysteresis_cases)
    case quiet
    then show ?thesis by (intro that(1)) simp_all
  next
    case start
    with False show ?thesis by (intro that(2)) simp_all
  next
    case stop
    with False show ?thesis by (intro that(3)) simp_all
  qed
qed

lemma events_of_simps [simp]:
  "events_of h [] = []"
  "events_of h (e # es) = (if hand e = h then e # events_of h es else events_of h es)"
  "events_of h (es @ es') = events_of h es @ events_of h es'"
  by (simp_all add: events_of_def)

lemma analyzeHand_frame:
  assumes A: "analyzeHand this ts h lm st evs = Inr (m, st', this', evs')"
  shows "leftHand this' = leftHand this" and "rightHand this' = rightHand this"
    and "config this' = config this" and "sessionStartTime this' = sessionStartTime this"
    and "h' \<noteq> h \<Longrightarrow> events_of h' evs' = events_of h' evs"
  using A by (cases rule: analyzeHand_cases; simp)+

lemma processFrame_split:
  assumes "processFrame this ts l r = Inr (res, this1)"
  obtains lm ls thisA evsA rm rs thisB evsB where
    "analyzeHand this ts Left l (leftHand this) [] = Inr (lm, ls, thisA, evsA)"
    "analyzeHand (thisA\<lparr>leftHand := ls\<rparr>) ts Right r (rightHand thisA) evsA =
       Inr (rm, rs, thisB, evsB)"
    "res = \<lparr>events = evsB, leftMetrics = lm, rightMetrics = rm\<rparr>"
    "this1 = thisB\<lparr>rightHand := rs\<rparr>"
  using assms
  by (auto simp: processFrame_def Let_def split: sum.splits prod.splits)

lemma processFrame_hand_cases:
  assumes P: "processFrame this ts l r = Inr (res, this1)"
  obtains
    (quiet) "events_of h (events res) = []"
      "isMoving (hand_state h this1) = isMoving (hand_state h this)"
      "motionStartTime (hand_state h this1) = motionStartTime (hand_state h this)"
      "totalDistance (hand_state h this1) =
         (if isMoving (hand_state h this)
          then totalDistance (hand_state h this) + raw_speed h this (ts, l, r)
          else totalDistance (hand_state h this))"
  | (start) e where "events_of h (events res) = [e]" "type_evt e = START"
      "\<not> hand_lost (landmarks_for h (ts, l, r))"
      "\<not> isMoving (hand_state h this)" "isMoving (hand_state h this1)"
      "totalDistance (hand_state h this1) = 0"
      "motionStartTime (hand_state h this1) = Some ts"
      "timestamp e = ts - sessionStartTime this"
  | (stop) e where "events_of h (events res) = [e]" "type_evt e = STOP"
      "\<not> hand_lost (landmarks_for h (ts, l, r))"
      "isMoving (hand_state h this)" "\<not> isMoving (hand_state h this1)"
      "motionStartTime (hand_state h this1) = None"
      "timestamp e = ts - sessionStartTime this"
      "duration e = Some (ts - (case motionStartTime (hand_state h this) of
                                  None \<Rightarrow> ts | Some m \<Rightarrow> if m = 0 then ts else m))"
      "distance e = Some (totalDistance (hand_state h this) + raw_speed h this (ts, l, r))"
proof -
  from P obtain lm ls thisA evsA rm rs thisB evsB where
    L: "analyzeHand this ts Left l (leftHand this) [] = Inr (lm, ls, thisA, evsA)" and
    R: "analyzeHand (thisA\<lparr>leftHand := ls\<rparr>) ts Right r (rightHand thisA) evsA =
       Inr (rm, rs, thisB, evsB)" and
    res: "res = \<lparr>events = evsB, leftMetrics = lm, rightMetrics = rm\<rparr>" and
    this1: "this1 = thisB\<lparr>rightHand := rs\<rparr>"
    by (rule processFrame_split)
  note fL = analyzeHand_frame [OF L]
  note fR = analyzeHand_frame [OF R]
  show thesis
  proof (cases h)
    case Left
    have ev: "events_of Left (events res) = events_of Left evsA"
      using fR(5) [of Left] res by simp
    have st: "leftHand this1 = ls"
      using fR(1) this1 by simp
    have sp: "raw_speed Left this (ts, l, r) = hand_speed (leftHand this) l"
      by (simp add: raw_speed_def)
    from L show ?thesis
    proof (cases rule: analyzeHand_cases)
      case quiet
      then show ?thesis
        by (intro that(1)) (simp_all add: Left ev st sp)
    next
      case start
      then show ?thesis
        by (intro that(2)) (simp add: Left ev st sp)+
    next
      case stop
      then show ?thesis
        by (intro that(3)) (simp add: Left ev st sp)+
    qed
  next
    case Right
    have evA: "events_of Right evsA = []"
      using fL(5) [of Right] by simp
    have st: "rightHand this1 = rs" "rightHand this = rightHand thisA"
      using fL(2) this1 by simp_all
    have sp: "raw_speed Right this (ts, l, r) = hand_speed (rightHand thisA) r"
      using fL(2) by (simp add: raw_speed_def)
    have ss: "sessionStartTime (thisA\<lparr>leftHand := ls\<rparr>) = sessionStartTime this"
      using fL(4) by simp
    from R show ?thesis
    proof (cases rule: analyzeHand_cases)
      case quiet
      then show ?thesis
        using evA by (intro that(1)) (simp_all add: res Right st sp)
    next
      case start
      then show ?thesis
        using evA by (intro that(2)) (simp add: res Right st sp ss)+
    next
      case stop
      then show ?thesis
        using evA by (intro that(3)) (simp add: res Right st sp ss)+
    qed
  qed
qed

text \<open>A call throws exactly when one of the two landmark lists is non-empty and short.\<close>

lemma analyzeHand_throws_iff:
  "(\<exists>err. analyzeHand this ts h lm st evs = Inl err) = short_list lm"
proof (cases lm)
  case None
  then show ?thesis by (simp add: analyzeHand_lost short_list_def)
next
  case (Some lms)
  consider "length lms = 0" | "0 < length lms" "length lms < 10" | "10 \<le> length lms"
    by linarith
  then show ?thesis
  proof cases
    case 1
    then show ?thesis by (simp add: Some analyzeHand_lost short_list_def)
  next
    case 2
    then show ?thesis by (simp add: Some analyzeHand_short short_list_def)
  next
    case 3
    then show ?thesis
      by (simp add: Some analyzeHand_seen short_list_def split: prod.splits)
  qed
qed

lemma processFrame_throws_iff:
  "(\<exists>err. processFrame this ts l r = Inl err) = (short_list l \<or> short_list r)"
proof (cases "analyzeHand this ts Left l (leftHand this) []")
  case (Inl err)
  moreover from Inl have "short_list l"
    using analyzeHand_throws_iff [of this ts Left l "leftHand this" "[]"] by blast
  ultimately show ?thesis by (simp add: processFrame_def)
next
  case (Inr p)
  obtain lm ls thisA evsA where p: "p = (lm, ls, thisA, evsA)" by (cases p)
  from Inr have nl: "\<not> short_list l"
    using analyzeHand_throws_iff [of this ts Left l "leftHand this" "[]"] by auto
  let ?R = "analyzeHand (thisA\<lparr>leftHand := ls\<rparr>) ts Right r
              (rightHand (thisA\<lparr>leftHand := ls\<rparr>)) evsA"
  have "(\<exists>err. processFrame this ts l r = Inl err) = (\<exists>err. ?R = Inl err)"
    using Inr p by (auto simp: processFrame_def Let_def split: sum.splits)
  also have "\<dots> = short_list r"
    by (rule analyzeHand_throws_iff)
  finally show ?thesis using nl by simp
qed

section \<open>Runs of calls\<close>

lemma run_Cons_Inl:
  "processFrame this ts l r = Inl e \<Longrightarrow> run this ((ts, l, r) # fs) = []"
  by simp

lemma run_Cons_Inr:
  "processFrame this ts l r = Inr (res, this1) \<Longrightarrow>
     run this ((ts, l, r) # fs) = (res, this1) # run this1 fs"
  by simp

lemma session_log_Nil [simp]: "session_log this [] = []"
  by (simp add: session_log_def)

lemma session_log_Inl:
  "processFrame this ts l r = Inl e \<Longrightarrow> session_log this ((ts, l, r) # fs) = []"
  by (simp add: session_log_def)

lemma session_log_Inr:
  "processFrame this ts l r = Inr (res, this1) \<Longrightarrow>
     session_log this ((ts, l, r) # fs) = events res @ session_log this1 fs"
  by (simp add: session_log_def)

lemma alternating_log:
  "alternating (if isMoving (hand_state h this) then STOP else START)
     (events_of h (session_log this fs))"
proof (induction fs arbitrary: this)
  case Nil
  show ?case by simp
next
  case (Cons f fs)
  obtain ts l r where f: "f = (ts, l, r)" by (cases f)
  show ?case
  proof (cases "processFrame this ts l r")
    case (Inl e)
    then show ?thesis by (simp add: f session_log_Inl)
  next
    case (Inr p)
    then obtain res this1 where P: "processFrame this ts l r = Inr (res, this1)"
      by (cases p) simp
    note log = session_log_Inr [OF P, of fs]
    note IH = Cons.IH [of this1]
    from P show ?thesis
    proof (cases rule: processFrame_hand_cases [where h = h])
      case quiet
      with IH show ?thesis by (simp add: f log)
    next
      case (start e)
      with IH show ?thesis by (simp add: f log)
    next
      case (stop e)
      with IH show ?thesis by (simp add: f log)
    qed
  qed
qed

lemma alternating_adjacent:
  "alternating t evs \<Longrightarrow> Suc i < length evs \<Longrightarrow>
     type_evt (evs ! i) \<noteq> type_evt (evs ! Suc i)"
proof (induction evs arbitrary: t i)
  case Nil
  then show ?case by simp
next
  case (Cons e es)
  show ?case
  proof (cases i)
    case 0
    with Cons.prems show ?thesis
      by (cases es; cases t) auto
  next
    case (Suc k)
    with Cons.prems Cons.IH [of "other_type t" k] show ?thesis by simp
  qed
qed

lemma resetSession_fields [simp]:
  "isMoving (hand_state h (resetSession this now)) = False"
  "moveOrderCounter (resetSession this now) = 0"
  "sessionStartTime (resetSession this now) = now"
  "config (resetSession this now) = config this"
  by (cases h; simp add: resetSession_def createHandState_def)+

text \<open>An analyzer as the constructor returns it is a session reset at time 0.\<close>

lemma new_is_reset:
  "MotionAnalyzer_new cfg = Inr this \<Longrightarrow> this = resetSession this 0"
  by (auto simp: MotionAnalyzer_new_def resetSession_def)

lemma start_orders_append [simp]:
  "start_orders (es @ es') = start_orders es @ start_orders es'"
  by (induction es) (auto split: EventType.splits option.splits)

lemma starts_append [simp]: "starts (es @ es') = starts es @ starts es'"
  by (simp add: starts_def)

lemma upt_join: "a \<le> b \<Longrightarrow> b \<le> c \<Longrightarrow> [a..<b] @ [b..<c] = [a..<c]"
  using upt_add_eq_append [of a b "c - b"] by simp

lemma processFrame_orders:
  assumes P: "processFrame this ts l r = Inr (res, this1)"
  shows "start_orders (events res) =
           [Suc (moveOrderCounter this) ..< Suc (moveOrderCounter this1)]"
    and "length (starts (events res)) = moveOrderCounter this1 - moveOrderCounter this"
    and "moveOrderCounter this \<le> moveOrderCounter this1"
proof -
  from P obtain lm ls thisA evsA rm rs thisB evsB where
    L: "analyzeHand this ts Left l (leftHand this) [] = Inr (lm, ls, thisA, evsA)" and
    R: "analyzeHand (thisA\<lparr>leftHand := ls\<rparr>) ts Right r (rightHand thisA) evsA =
       Inr (rm, rs, thisB, evsB)" and
    res: "res = \<lparr>events = evsB, leftMetrics = lm, rightMetrics = rm\<rparr>" and
    this1: "this1 = thisB\<lparr>rightHand := rs\<rparr>"
    by (rule processFrame_split)
  have "start_orders evsA = [Suc (moveOrderCounter this) ..< Suc (moveOrderCounter thisA)]
        \<and> length (starts evsA) = moveOrderCounter thisA - moveOrderCounter this
        \<and> moveOrderCounter this \<le> moveOrderCounter thisA"
    using L by (cases rule: analyzeHand_cases) (simp_all add: starts_def)
  moreover
  have "start_orders evsB = start_orders evsA @ [Suc (moveOrderCounter thisA) ..< Suc (moveOrderCounter thisB)]
        \<and> length (starts evsB) = length (starts evsA) + (moveOrderCounter thisB - moveOrderCounter thisA)
        \<and> moveOrderCounter thisA \<le> moveOrderCounter thisB"
    using R by (cases rule: analyzeHand_cases) (simp_all add: starts_def)
  ultimately show "start_orders (events res) =
           [Suc (moveOrderCounter this) ..< Suc (moveOrderCounter this1)]"
    and "length (starts (events res)) = moveOrderCounter this1 - moveOrderCounter this"
    and "moveOrderCounter this \<le> moveOrderCounter this1"
    using res this1 by (simp_all add: upt_join del: upt_Suc)
qed

lemma start_orders_log:
  "start_orders (session_log this fs) =
     [Suc (moveOrderCounter this) ..<
        Suc (moveOrderCounter this) + length (starts (session_log this fs))]"
proof (induction fs arbitrary: this)
  case Nil
  show ?case by (simp add: starts_def)
next
  case (Cons f fs)
  obtain ts l r where f: "f = (ts, l, r)" by (cases f)
  show ?case
  proof (cases "processFrame this ts l r")
    case (Inl e)
    then show ?thesis by (simp add: f session_log_Inl starts_def)
  next
    case (Inr p)
    then obtain res this1 where P: "processFrame this ts l r = Inr (res, this1)"
      by (cases p) simp
    note log = session_log_Inr [OF P, of fs]
    note ord = processFrame_orders [OF P]
    let ?k = "length (starts (session_log this1 fs))"
    have "start_orders (session_log this (f # fs)) =
            [Suc (moveOrderCounter this) ..< Suc (moveOrderCounter this1)]
            @ [Suc (moveOrderCounter this1) ..< Suc (moveOrderCounter this1) + ?k]"
      using Cons.IH [of this1] ord(1) by (simp add: f log)
    also have "\<dots> = [Suc (moveOrderCounter this) ..< Suc (moveOrderCounter this1) + ?k]"
      using ord(3) by (intro upt_join) simp_all
    also have "Suc (moveOrderCounter this1) + ?k =
                 Suc (moveOrderCounter this) + length (starts (session_log this (f # fs)))"
      using ord(2,3) by (simp add: f log)
    finally show ?thesis .
  qed
qed

lemma state_before_0 [simp]: "state_before this fs 0 = this"
  by (simp add: state_before_def)

lemma state_before_Suc:
  "processFrame this ts l r = Inr (res, this1) \<Longrightarrow>
     state_before this ((ts, l, r) # fs) (Suc k) = state_before this1 fs k"
  by (simp add: state_before_def)

lemma frame_events_0:
  "processFrame this ts l r = Inr (res, this1) \<Longrightarrow>
     frame_events this ((ts, l, r) # fs) 0 = events res"
  by (simp add: frame_events_def)

lemma frame_events_Suc:
  "processFrame this ts l r = Inr (res, this1) \<Longrightarrow>
     frame_events this ((ts, l, r) # fs) (Suc k) = frame_events this1 fs k"
  by (simp add: frame_events_def)

lemma run_nonempty:
  assumes "i < length (run this ((ts, l, r) # fs))"
  obtains res this1 where "processFrame this ts l r = Inr (res, this1)"
    "run this ((ts, l, r) # fs) = (res, this1) # run this1 fs"
  using assms by (cases "processFrame this ts l r") auto

lemma stop_distance_general:
  assumes "i < length (run this fs)"
    and "e \<in> set (events_of h (frame_events this fs i))"
    and "type_evt e = STOP"
  shows "(\<exists>j<i. \<not> isMoving (hand_state h (state_before this fs j))
            \<and> (\<exists>e'\<in>set (events_of h (frame_events this fs j)). type_evt e' = START)
            \<and> (\<forall>k. j < k \<and> k \<le> i \<longrightarrow> isMoving (hand_state h (state_before this fs k)))
            \<and> distance e =
                Some (\<Sum>k = Suc j..i. raw_speed h (state_before this fs k) (fs ! k)))
       \<or> ((\<forall>k\<le>i. isMoving (hand_state h (state_before this fs k)))
            \<and> distance e =
                Some (totalDistance (hand_state h this)
                      + (\<Sum>k = 0..i. raw_speed h (state_before this fs k) (fs ! k))))"
  using assms
proof (induction fs arbitrary: this i)
  case Nil
  then show ?case by simp
next
  case (Cons f fs)
  obtain ts l r where f: "f = (ts, l, r)" by (cases f)
  from Cons.prems(1) obtain res this1 where
    P: "processFrame this ts l r = Inr (res, this1)" and
    run: "run this ((ts, l, r) # fs) = (res, this1) # run this1 fs"
    unfolding f by (rule run_nonempty)
  note sb = state_before_Suc [OF P, of fs]
  note fe0 = frame_events_0 [OF P, of fs]
  note fe = frame_events_Suc [OF P, of fs]
  let ?g = "\<lambda>k. raw_speed h (state_before this (f # fs) k) ((f # fs) ! k)"
  let ?g' = "\<lambda>k. raw_speed h (state_before this1 fs k) (fs ! k)"
  have g_Suc: "?g (Suc k) = ?g' k" for k
    by (simp add: f sb)
  have g_0: "?g 0 = raw_speed h this (ts, l, r)"
    by (simp add: f)
  show ?case
  proof (cases i)
    case 0
    with Cons.prems(2) have mem: "e \<in> set (events_of h (events res))"
      by (simp add: f fe0)
    from P show ?thesis
    proof (cases rule: processFrame_hand_cases [where h = h])
      case quiet
      with mem show ?thesis by simp
    next
      case (start e')
      with mem Cons.prems(3) show ?thesis by simp
    next
      case (stop e')
      with mem have "e = e'" by simp
      with stop 0 show ?thesis by (simp add: f)
    qed
  next
    case (Suc i')
    with Cons.prems run have i': "i' < length (run this1 fs)"
      by (simp add: f)
    from Cons.prems(2) Suc have mem: "e \<in> set (events_of h (frame_events this1 fs i'))"
      by (simp add: f fe)
    from Cons.IH [OF i' mem Cons.prems(3)]
    consider
      (A) j' where "j' < i'"
        "\<not> isMoving (hand_state h (state_before this1 fs j'))"
        "\<exists>e'\<in>set (events_of h (frame_events this1 fs j')). type_evt e' = START"
        "\<forall>k. j' < k \<and> k \<le> i' \<longrightarrow> isMoving (hand_state h (state_before this1 fs k))"
        "distance e = Some (\<Sum>k = Suc j'..i'. ?g' k)"
    | (B) "\<forall>k\<le>i'. isMoving (hand_state h (state_before this1 fs k))"
        "distance e = Some (totalDistance (hand_state h this1) + (\<Sum>k = 0..i'. ?g' k))"
      by blast
    then show ?thesis
    proof cases
      case A
      have mov: "\<forall>k. Suc j' < k \<and> k \<le> i \<longrightarrow>
                   isMoving (hand_state h (state_before this (f # fs) k))"
      proof (intro allI impI)
        fix k assume k: "Suc j' < k \<and> k \<le> i"
        then obtain k' where k': "k = Suc k'" by (cases k) auto
        with k Suc A(4) show "isMoving (hand_state h (state_before this (f # fs) k))"
          by (simp add: f sb)
      qed
      have "(\<Sum>k = Suc (Suc j')..Suc i'. ?g k) = (\<Sum>k = Suc j'..i'. ?g (Suc k))"
        by (rule sum.shift_bounds_cl_Suc_ivl)
      also have "\<dots> = (\<Sum>k = Suc j'..i'. ?g' k)"
        by (simp only: g_Suc)
      finally have dist: "distance e = Some (\<Sum>k = Suc (Suc j')..i. ?g k)"
        using A(5) Suc by simp
      have "Suc j' < i" using A(1) Suc by simp
      moreover have "\<not> isMoving (hand_state h (state_before this (f # fs) (Suc j')))"
        using A(2) by (simp add: f sb)
      moreover have "\<exists>e'\<in>set (events_of h (frame_events this (f # fs) (Suc j'))).
                       type_evt e' = START"
        using A(3) by (simp add: f fe)
      ultimately show ?thesis using mov dist by blast
    next
      case B
      from B(1) have mov1: "isMoving (hand_state h this1)"
        by (metis le0 state_before_0)
      have movS: "isMoving (hand_state h (state_before this (f # fs) (Suc k)))"
        if "k \<le> i'" for k
        using B(1) that by (simp add: f sb)
      have sumS: "(\<Sum>k = Suc 0..Suc i'. ?g k) = (\<Sum>k = 0..i'. ?g' k)"
      proof -
        have "(\<Sum>k = Suc 0..Suc i'. ?g k) = (\<Sum>k = 0..i'. ?g (Suc k))"
          by (rule sum.shift_bounds_cl_Suc_ivl)
        then show ?thesis by (simp only: g_Suc)
      qed
      have sum0: "(\<Sum>k = 0..Suc i'. ?g k) = ?g 0 + (\<Sum>k = 0..i'. ?g' k)"
      proof -
        have "(\<Sum>k = 0..Suc i'. ?g k) = ?g 0 + (\<Sum>k = Suc 0..Suc i'. ?g k)"
          by (simp add: sum.atLeast_Suc_atMost)
        then show ?thesis by (simp only: sumS)
      qed
      from P show ?thesis
      proof (cases rule: processFrame_hand_cases [where h = h])
        case quiet
        with mov1 have m0: "isMoving (hand_state h this)"
          and td: "totalDistance (hand_state h this1) =
                     totalDistance (hand_state h this) + ?g 0"
          by (simp_all add: f)
        have "\<forall>k\<le>i. isMoving (hand_state h (state_before this (f # fs) k))"
        proof (intro allI impI)
          fix k assume "k \<le> i"
          with Suc m0 movS show "isMoving (hand_state h (state_before this (f # fs) k))"
            by (cases k) simp_all
        qed
        moreover have "distance e =
            Some (totalDistance (hand_state h this) + (\<Sum>k = 0..i. ?g k))"
          using B(2) td Suc sum0 by simp
        ultimately show ?thesis by blast
      next
        case (start e')
        have "\<forall>k. 0 < k \<and> k \<le> i \<longrightarrow>
                isMoving (hand_state h (state_before this (f # fs) k))"
        proof (intro allI impI)
          fix k assume k: "0 < k \<and> k \<le> i"
          then obtain k' where "k = Suc k'" by (cases k) auto
          with k Suc movS show "isMoving (hand_state h (state_before this (f # fs) k))"
            by simp
        qed
        moreover have "distance e = Some (\<Sum>k = Suc 0..i. ?g k)"
          using B(2) start(6) Suc sumS by simp
        moreover have "\<not> isMoving (hand_state h (state_before this (f # fs) 0))"
          using start(4) by simp
        moreover have "\<exists>e'\<in>set (events_of h (frame_events this (f # fs) 0)).
                         type_evt e' = START"
          using start(1,2) by (simp add: f fe0)
        moreover have "0 < i" using Suc by simp
        ultimately show ?thesis by blast
      next
        case (stop e')
        with mov1 show ?thesis by simp
      qed
    qed
  qed
qed

lemma processFrame_lost:
  assumes P: "processFrame this ts l r = Inr (res, this1)"
    and lost: "hand_lost (landmarks_for h (ts, l, r))"
  shows "events_of h (events res) = []"
    and "metrics_for h res = None"
    and "hand_state h this1 =
           (hand_state h this)\<lparr>velocityBuffer :=
              VelocityBuffer_add (velocityBuffer (hand_state h this)) 0\<rparr>"
proof -
  from P obtain lm ls thisA evsA rm rs thisB evsB where
    L: "analyzeHand this ts Left l (leftHand this) [] = Inr (lm, ls, thisA, evsA)" and
    R: "analyzeHand (thisA\<lparr>leftHand := ls\<rparr>) ts Right r (rightHand thisA) evsA =
       Inr (rm, rs, thisB, evsB)" and
    res: "res = \<lparr>events = evsB, leftMetrics = lm, rightMetrics = rm\<rparr>" and
    this1: "this1 = thisB\<lparr>rightHand := rs\<rparr>"
    by (rule processFrame_split)
  note fL = analyzeHand_frame [OF L]
  note fR = analyzeHand_frame [OF R]
  have "events_of h (events res) = [] \<and> metrics_for h res = None \<and>
        hand_state h this1 =
           (hand_state h this)\<lparr>velocityBuffer :=
              VelocityBuffer_add (velocityBuffer (hand_state h this)) 0\<rparr>"
  proof (cases h)
    case Left
    with lost have "hand_lost l" by simp
    with L have "lm = None" "evsA = []"
      "ls = (leftHand this)\<lparr>velocityBuffer :=
              VelocityBuffer_add (velocityBuffer (leftHand this)) 0\<rparr>"
      by (auto simp: analyzeHand_lost)
    moreover have "events_of Left evsB = events_of Left evsA"
      using fR(5) [of Left] by simp
    moreover have "leftHand this1 = ls"
      using fR(1) this1 by simp
    ultimately show ?thesis by (simp add: Left res)
  next
    case Right
    with lost have "hand_lost r" by simp
    with R have "rm = None" "evsB = evsA"
      "rs = (rightHand thisA)\<lparr>velocityBuffer :=
              VelocityBuffer_add (velocityBuffer (rightHand thisA)) 0\<rparr>"
      by (auto simp: analyzeHand_lost)
    moreover have "events_of Right evsA = []"
      using fL(5) [of Right] by simp
    moreover have "rightHand this1 = rs" "rightHand thisA = rightHand this"
      using fL(2) this1 by simp_all
    ultimately show ?thesis by (simp add: Right res)
  qed
  then show "events_of h (events res) = []"
    and "metrics_for h res = None"
    and "hand_state h this1 =
           (hand_state h this)\<lparr>velocityBuffer :=
              VelocityBuffer_add (velocityBuffer (hand_state h this)) 0\<rparr>"
    by simp_all
qed

lemma same_but_window_trans:
  "same_but_window a b \<Longrightarrow> same_but_window b c \<Longrightarrow> same_but_window a c"
  by (simp add: same_but_window_def)

lemma lost_run:
  assumes "\<forall>f\<in>set fs. hand_lost (landmarks_for h f)"
  shows "events_of h (session_log this fs) = []
         \<and> (\<forall>ret\<in>set (run this fs).
               same_but_window (hand_state h this) (hand_state h (snd ret)))"
  using assms
proof (induction fs arbitrary: this)
  case Nil
  show ?case by simp
next
  case (Cons f fs)
  obtain ts l r where f: "f = (ts, l, r)" by (cases f)
  show ?case
  proof (cases "processFrame this ts l r")
    case (Inl e)
    then show ?thesis by (simp add: f session_log_Inl)
  next
    case (Inr p)
    then obtain res this1 where P: "processFrame this ts l r = Inr (res, this1)"
      by (cases p) simp
    from Cons.prems have lost: "hand_lost (landmarks_for h (ts, l, r))"
      by (simp add: f)
    note step = processFrame_lost [OF P lost]
    have sw: "same_but_window (hand_state h this) (hand_state h this1)"
      by (simp add: step(3) same_but_window_def)
    from Cons.prems have IH: "events_of h (session_log this1 fs) = []"
      "\<forall>ret\<in>set (run this1 fs).
          same_but_window (hand_state h this1) (hand_state h (snd ret))"
      using Cons.IH [of this1] by simp_all
    have "events_of h (session_log this (f # fs)) = []"
      using step(1) IH(1) by (simp add: f session_log_Inr [OF P])
    moreover have "\<forall>ret\<in>set (run this (f # fs)).
        same_but_window (hand_state h this) (hand_state h (snd ret))"
      using sw IH(2) P by (auto simp: f intro: same_but_window_trans)
    ultimately show ?thesis by blast
  qed
qed

lemma run_nth:
  assumes "i < length (run this fs)"
  shows "i < length fs \<and>
         processFrame (state_before this fs i)
           (fst (fs ! i)) (fst (snd (fs ! i))) (snd (snd (fs ! i))) = Inr (run this fs ! i)"
  using assms
proof (induction fs arbitrary: this i)
  case Nil
  then show ?case by simp
next
  case (Cons f fs)
  obtain ts l r where f: "f = (ts, l, r)" by (cases f)
  from Cons.prems obtain res this1 where
    P: "processFrame this ts l r = Inr (res, this1)" and
    run: "run this ((ts, l, r) # fs) = (res, this1) # run this1 fs"
    unfolding f by (rule run_nonempty)
  show ?case
  proof (cases i)
    case 0
    with P show ?thesis by (simp add: f)
  next
    case (Suc k)
    with Cons.prems run have "k < length (run this1 fs)" by (simp add: f)
    from Cons.IH [OF this] Suc show ?thesis
      by (simp add: f state_before_Suc [OF P] run del: run.simps)
  qed
qed

lemma event_needs_visible_hand:
  assumes "i < length (run this fs)" and "e \<in> set (frame_events this fs i)"
    and "hand e = h"
  shows "\<not> hand_lost (landmarks_for h (fs ! i))"
proof
  assume lost: "hand_lost (landmarks_for h (fs ! i))"
  obtain ts l r where f: "fs ! i = (ts, l, r)" by (cases "fs ! i")
  obtain res this1 where ret: "run this fs ! i = (res, this1)" by (cases "run this fs ! i")
  from run_nth [OF assms(1)] f ret
  have P: "processFrame (state_before this fs i) ts l r = Inr (res, this1)" by simp
  from processFrame_lost(1) [OF P, of h] lost f
  have "events_of h (events res) = []" by simp
  moreover from assms(2,3) ret have "e \<in> set (events_of h (events res))"
    by (simp add: frame_events_def events_of_def)
  ultimately show False by simp
qed

lemma processFrame_frame:
  assumes P: "processFrame this ts l r = Inr (res, this1)"
  shows "sessionStartTime this1 = sessionStartTime this" and "config this1 = config this"
proof -
  from P obtain lm ls thisA evsA rm rs thisB evsB where
    L: "analyzeHand this ts Left l (leftHand this) [] = Inr (lm, ls, thisA, evsA)" and
    R: "analyzeHand (thisA\<lparr>leftHand := ls\<rparr>) ts Right r (rightHand thisA) evsA =
       Inr (rm, rs, thisB, evsB)" and
    this1: "this1 = thisB\<lparr>rightHand := rs\<rparr>"
    by (rule processFrame_split)
  note fL = analyzeHand_frame [OF L]
  note fR = analyzeHand_frame [OF R]
  show "sessionStartTime this1 = sessionStartTime this" and "config this1 = config this"
    using fL(3,4) fR(3,4) this1 by simp_all
qed

lemma stop_duration_general:
  assumes "i < length (run this fs)"
    and "e \<in> set (events_of h (frame_events this fs i))"
    and "type_evt e = STOP"
  shows "timestamp e = fst (fs ! i) - sessionStartTime this
       \<and> ((\<exists>j<i. (\<exists>e'\<in>set (events_of h (frame_events this fs j)).
                     type_evt e' = START
                     \<and> timestamp e' = fst (fs ! j) - sessionStartTime this)
              \<and> (\<forall>k. j < k \<and> k \<le> i \<longrightarrow> isMoving (hand_state h (state_before this fs k)))
              \<and> duration e =
                  Some (fst (fs ! i)
                        - (if fst (fs ! j) = 0 then fst (fs ! i) else fst (fs ! j))))
          \<or> ((\<forall>k\<le>i. isMoving (hand_state h (state_before this fs k)))
              \<and> duration e =
                  Some (fst (fs ! i)
                        - (case motionStartTime (hand_state h this) of
                             None \<Rightarrow> fst (fs ! i)
                           | Some m \<Rightarrow> if m = 0 then fst (fs ! i) else m))))"
  using assms
proof (induction fs arbitrary: this i)
  case Nil
  then show ?case by simp
next
  case (Cons f fs)
  obtain ts l r where f: "f = (ts, l, r)" by (cases f)
  from Cons.prems(1) obtain res this1 where
    P: "processFrame this ts l r = Inr (res, this1)" and
    run: "run this ((ts, l, r) # fs) = (res, this1) # run this1 fs"
    unfolding f by (rule run_nonempty)
  note sb = state_before_Suc [OF P, of fs]
  note fe0 = frame_events_0 [OF P, of fs]
  note fe = frame_events_Suc [OF P, of fs]
  note ss = processFrame_frame(1) [OF P]
  show ?case
  proof (cases i)
    case 0
    with Cons.prems(2) have mem: "e \<in> set (events_of h (events res))"
      by (simp add: f fe0)
    from P show ?thesis
    proof (cases rule: processFrame_hand_cases [where h = h])
      case quiet
      with mem show ?thesis by simp
    next
      case (start e')
      with mem Cons.prems(3) show ?thesis by simp
    next
      case (stop e')
      with mem have "e = e'" by simp
      with stop 0 show ?thesis by (simp add: f cong: option.case_cong if_cong)
    qed
  next
    case (Suc i')
    with Cons.prems run have i': "i' < length (run this1 fs)"
      by (simp add: f)
    from Cons.prems(2) Suc have mem: "e \<in> set (events_of h (frame_events this1 fs i'))"
      by (simp add: f fe)
    from Cons.IH [OF i' mem Cons.prems(3)]
    have ts_e: "timestamp e = fst (fs ! i') - sessionStartTime this"
      by (simp add: ss)
    from Cons.IH [OF i' mem Cons.prems(3)]
    consider
      (A) j' where "j' < i'"
        "\<exists>e'\<in>set (events_of h (frame_events this1 fs j')).
            type_evt e' = START \<and> timestamp e' = fst (fs ! j') - sessionStartTime this"
        "\<forall>k. j' < k \<and> k \<le> i' \<longrightarrow> isMoving (hand_state h (state_before this1 fs k))"
        "duration e = Some (fst (fs ! i')
                        - (if fst (fs ! j') = 0 then fst (fs ! i') else fst (fs ! j')))"
    | (B) "\<forall>k\<le>i'. isMoving (hand_state h (state_before this1 fs k))"
        "duration e = Some (fst (fs ! i')
                        - (case motionStartTime (hand_state h this1) of
                             None \<Rightarrow> fst (fs ! i')
                           | Some m \<Rightarrow> if m = 0 then fst (fs ! i') else m))"
      unfolding ss by blast
    then show ?thesis
    proof cases
      case A
      have mov: "\<forall>k. Suc j' < k \<and> k \<le> i \<longrightarrow>
                   isMoving (hand_state h (state_before this (f # fs) k))"
      proof (intro allI impI)
        fix k assume k: "Suc j' < k \<and> k \<le> i"
        then obtain k' where k': "k = Suc k'" by (cases k) auto
        with k Suc A(3) show "isMoving (hand_state h (state_before this (f # fs) k))"
          by (simp add: f sb)
      qed
      have "Suc j' < i" using A(1) Suc by simp
      moreover have "\<exists>e'\<in>set (events_of h (frame_events this (f # fs) (Suc j'))).
          type_evt e' = START
          \<and> timestamp e' = fst ((f # fs) ! Suc j') - sessionStartTime this"
        using A(2) by (simp add: f fe)
      moreover have "duration e = Some (fst ((f # fs) ! i)
           - (if fst ((f # fs) ! Suc j') = 0 then fst ((f # fs) ! i)
              else fst ((f # fs) ! Suc j')))"
        using A(4) Suc by (simp cong: if_cong)
      moreover have "timestamp e = fst ((f # fs) ! i) - sessionStartTime this"
        using ts_e Suc by simp
      ultimately show ?thesis using mov by blast
    next
      case B
      from B(1) have mov1: "isMoving (hand_state h this1)"
        by (metis le0 state_before_0)
      have movS: "isMoving (hand_state h (state_before this (f # fs) (Suc k)))"
        if "k \<le> i'" for k
        using B(1) that by (simp add: f sb)
      have ts_e': "timestamp e = fst ((f # fs) ! i) - sessionStartTime this"
        using ts_e Suc by simp
      from P show ?thesis
      proof (cases rule: processFrame_hand_cases [where h = h])
        case quiet
        with mov1 have m0: "isMoving (hand_state h this)" by simp
        have "\<forall>k\<le>i. isMoving (hand_state h (state_before this (f # fs) k))"
        proof (intro allI impI)
          fix k assume "k \<le> i"
          with Suc m0 movS show "isMoving (hand_state h (state_before this (f # fs) k))"
            by (cases k) simp_all
        qed
        moreover have "duration e = Some (fst ((f # fs) ! i)
             - (case motionStartTime (hand_state h this) of
                  None \<Rightarrow> fst ((f # fs) ! i)
                | Some m \<Rightarrow> if m = 0 then fst ((f # fs) ! i) else m))"
          using B(2) quiet(3) Suc by (simp cong: option.case_cong if_cong)
        ultimately show ?thesis using ts_e' by blast
      next
        case (start e')
        have "\<forall>k. 0 < k \<and> k \<le> i \<longrightarrow>
                isMoving (hand_state h (state_before this (f # fs) k))"
        proof (intro allI impI)
          fix k assume k: "0 < k \<and> k \<le> i"
          then obtain k' where "k = Suc k'" by (cases k) auto
          with k Suc movS show "isMoving (hand_state h (state_before this (f # fs) k))"
            by simp
        qed
        moreover have "duration e = Some (fst ((f # fs) ! i)
             - (if fst ((f # fs) ! 0) = 0 then fst ((f # fs) ! i) else fst ((f # fs) ! 0)))"
          using B(2) start(7) Suc by (simp add: f cong: option.case_cong if_cong)
        moreover have "\<exists>e'\<in>set (events_of h (frame_events this (f # fs) 0)).
             type_evt e' = START
             \<and> timestamp e' = fst ((f # fs) ! 0) - sessionStartTime this"
          using start(1,2,8) by (simp add: f fe0)
        moreover have "0 < i" using Suc by simp
        ultimately show ?thesis using ts_e' by blast
      next
        case (stop e')
        with mov1 show ?thesis by simp
      qed
    qed
  qed
qed

text \<open>
  The duration of a STOP event in a session: the difference of its timestamp and the
  timestamp of the hand's latest START, unless that START fired in a frame whose raw
  timestamp is 0, where it is 0.
\<close>

lemma stop_duration_session:
  assumes "i < length (run (resetSession this now) fs)"
    and "e \<in> set (frame_events (resetSession this now) fs i)"
    and "hand e = h"
    and "type_evt e = STOP"
  shows "\<exists>j<i. \<exists>e'\<in>set (frame_events (resetSession this now) fs j).
           hand e' = h \<and> type_evt e' = START
           \<and> (\<forall>k. j < k \<and> k \<le> i \<longrightarrow>
                  isMoving (hand_state h (state_before (resetSession this now) fs k)))
           \<and> duration e =
               Some (if fst (fs ! j) = 0 then 0 else timestamp e - timestamp e')"
proof -
  let ?S = "resetSession this now"
  from assms(2,3) have mem: "e \<in> set (events_of h (frame_events ?S fs i))"
    by (simp add: events_of_def)
  have idle: "\<not> isMoving (hand_state h (state_before ?S fs 0))"
    by simp
  from stop_duration_general [OF assms(1) mem assms(4)] idle
  obtain j e' where j: "j < i"
    "e' \<in> set (events_of h (frame_events ?S fs j))"
    "type_evt e' = START" "timestamp e' = fst (fs ! j) - now"
    "\<forall>k. j < k \<and> k \<le> i \<longrightarrow> isMoving (hand_state h (state_before ?S fs k))"
    "duration e = Some (fst (fs ! i) - (if fst (fs ! j) = 0 then fst (fs ! i) else fst (fs ! j)))"
    and te: "timestamp e = fst (fs ! i) - now"
    by auto
  from j(2) have "e' \<in> set (frame_events ?S fs j)" "hand e' = h"
    by (simp_all add: events_of_def)
  moreover have "duration e = Some (if fst (fs ! j) = 0 then 0 else timestamp e - timestamp e')"
    using j(4,6) te by simp
  ultimately show ?thesis using j(1,3,5) by blast
qed

section \<open>A moving hand at rest stops\<close>

lemma add_bounded:
  assumes "size_vb vb = real c" and "length (buffer vb) \<le> c"
  shows "size_vb (VelocityBuffer_add vb v) = real c"
    and "length (buffer (VelocityBuffer_add vb v)) \<le> c"
  using assms by (auto simp: VelocityBuffer_add_def Let_def)

lemma add_zero_formula:
  assumes "size_vb vb = real c" and "length b1 \<le> c"
    and "buffer vb = drop (length b1 + m - c) (b1 @ replicate m 0)"
  shows "buffer (VelocityBuffer_add vb 0) =
           drop (length b1 + Suc m - c) (b1 @ replicate (Suc m) 0)"
proof -
  let ?n = "length b1 + m - c"
  have le: "?n \<le> length (b1 @ replicate m (0::real))" by simp
  have len: "length (buffer vb) = length b1 + m - ?n"
    by (simp add: assms(3))
  have "drop ?n ((b1 @ replicate m 0) @ [0::real]) = drop ?n (b1 @ replicate m 0) @ [0]"
    using le by (simp only: drop_append) simp
  moreover have "(b1 @ replicate m 0) @ [0::real] = b1 @ replicate (Suc m) 0"
    by (simp add: replicate_append_same)
  ultimately have pushed: "buffer vb @ [0] = drop ?n (b1 @ replicate (Suc m) 0)"
    by (simp only: assms(3))
  show ?thesis
  proof (cases "c \<le> length b1 + m")
    case True
    then have "real (length (buffer vb @ [0])) > size_vb vb"
      using assms(1,2) len by simp
    then have "buffer (VelocityBuffer_add vb 0) = tl (buffer vb @ [0])"
      by (simp add: VelocityBuffer_add_def Let_def)
    also have "\<dots> = drop (Suc ?n) (b1 @ replicate (Suc m) 0)"
      by (simp only: pushed drop_Suc tl_drop)
    also have "Suc ?n = length b1 + Suc m - c"
      using True by simp
    finally show ?thesis .
  next
    case False
    then have "\<not> real (length (buffer vb @ [0])) > size_vb vb"
      using assms(1) len by simp
    then have "buffer (VelocityBuffer_add vb 0) = buffer vb @ [0]"
      by (simp add: VelocityBuffer_add_def Let_def)
    with pushed False show ?thesis by simp
  qed
qed

lemma foldl_zeros: "set zs \<subseteq> {0} \<Longrightarrow> foldl (+) (a::real) zs = a"
  by (induction zs arbitrary: a) auto

lemma average_zeros: "set (buffer vb) \<subseteq> {0} \<Longrightarrow> VelocityBuffer_average vb = 0"
  by (simp add: VelocityBuffer_average_def foldl_zeros)

lemma flushed_zeros:
  assumes "length b1 \<le> c" and "c \<le> m"
  shows "set (drop (length b1 + m - c) (b1 @ replicate m (0::real))) \<subseteq> {0}"
proof -
  have "length b1 \<le> length b1 + m - c" using assms by simp
  then have "drop (length b1 + m - c) (b1 @ replicate m (0::real)) =
               drop (length b1 + m - c - length b1) (replicate m 0)"
    by simp
  then show ?thesis by (auto dest: in_set_dropD)
qed

lemma hysteresis_moving:
  assumes "isMoving st"
    and H: "hysteresis this ts h st iv sv evs = (st', this', evs')"
  shows "(if sv < threshold (config this) * 0.5
             \<and> real (framesBelowThreshold st + 1) \<ge> minDurationFrames (config this)
          then \<exists>e. evs' = evs @ [e] \<and> hand e = h \<and> type_evt e = STOP
          else isMoving st' \<and> evs' = evs
               \<and> framesBelowThreshold st' =
                   (if sv < threshold (config this) * 0.5
                    then framesBelowThreshold st + 1 else 0))
         \<and> lastPosition st' = lastPosition st
         \<and> velocityBuffer st' = velocityBuffer st"
  using assms by (auto simp: hysteresis_def Let_def split: if_splits)

lemma hand_speed_same:
  "lastPosition st = Some (currentPos_of lms) \<Longrightarrow> 0 < length lms \<Longrightarrow>
     hand_speed st (Some lms) = 0"
  by (simp add: hand_speed_def instantaneousVelocity_of_def)

lemma processFrame_seen:
  assumes P: "processFrame this ts l r = Inr (res, this1)"
    and seen: "landmarks_for h (ts, l, r) = Some lms" "10 \<le> length lms"
  shows "\<exists>st' this' this'' evs evs'.
           hysteresis this' ts h
             ((hand_state h this)\<lparr>lastPosition := Some (currentPos_of lms),
                velocityBuffer := VelocityBuffer_add (velocityBuffer (hand_state h this))
                                    (hand_speed (hand_state h this) (Some lms))\<rparr>)
             (hand_speed (hand_state h this) (Some lms))
             (VelocityBuffer_average
                (VelocityBuffer_add (velocityBuffer (hand_state h this))
                   (hand_speed (hand_state h this) (Some lms))))
             evs = (st', this'', evs')
           \<and> config this' = config this
           \<and> hand_state h this1 = st'
           \<and> events_of h evs = []
           \<and> events_of h (events res) = events_of h evs'
           \<and> config this1 = config this"
proof -
  from P obtain lm ls thisA evsA rm rs thisB evsB where
    L: "analyzeHand this ts Left l (leftHand this) [] = Inr (lm, ls, thisA, evsA)" and
    R: "analyzeHand (thisA\<lparr>leftHand := ls\<rparr>) ts Right r (rightHand thisA) evsA =
       Inr (rm, rs, thisB, evsB)" and
    res: "res = \<lparr>events = evsB, leftMetrics = lm, rightMetrics = rm\<rparr>" and
    this1: "this1 = thisB\<lparr>rightHand := rs\<rparr>"
    by (rule processFrame_split)
  note fL = analyzeHand_frame [OF L]
  note fR = analyzeHand_frame [OF R]
  have cfg: "config this1 = config this"
    using processFrame_frame(2) [OF P] .
  show ?thesis
  proof (cases h)
    case Left
    with seen have l: "l = Some lms" by simp
    from L l seen(2) obtain st' this'' evs' where
      H: "hysteresis this ts Left
            ((leftHand this)\<lparr>lastPosition := Some (currentPos_of lms),
               velocityBuffer := VelocityBuffer_add (velocityBuffer (leftHand this))
                                   (hand_speed (leftHand this) (Some lms))\<rparr>)
            (hand_speed (leftHand this) (Some lms))
            (VelocityBuffer_average
               (VelocityBuffer_add (velocityBuffer (leftHand this))
                  (hand_speed (leftHand this) (Some lms))))
            [] = (st', this'', evs')"
      and eq: "ls = st'" "evsA = evs'"
      by (auto simp: analyzeHand_seen split: prod.splits)
    have "leftHand this1 = ls" using fR(1) this1 by simp
    moreover have "events_of Left (events res) = events_of Left evsA"
      using fR(5) [of Left] res by simp
    ultimately show ?thesis
      using H eq cfg unfolding Left
      by - (rule exI [of _ st'], rule exI [of _ this], rule exI [of _ this''],
            rule exI [of _ "[]"], rule exI [of _ evs'], auto)
  next
    case Right
    with seen have r: "r = Some lms" by simp
    from R r seen(2) obtain st' this'' evs' where
      H: "hysteresis (thisA\<lparr>leftHand := ls\<rparr>) ts Right
            ((rightHand thisA)\<lparr>lastPosition := Some (currentPos_of lms),
               velocityBuffer := VelocityBuffer_add (velocityBuffer (rightHand thisA))
                                   (hand_speed (rightHand thisA) (Some lms))\<rparr>)
            (hand_speed (rightHand thisA) (Some lms))
            (VelocityBuffer_average
               (VelocityBuffer_add (velocityBuffer (rightHand thisA))
                  (hand_speed (rightHand thisA) (Some lms))))
            evsA = (st', this'', evs')"
      and eq: "rs = st'" "evsB = evs'"
      by (auto simp: analyzeHand_seen split: prod.splits)
    have "rightHand this1 = rs" "rightHand thisA = rightHand this"
      using fL(2) this1 by simp_all
    moreover have "events_of Right evsA = []"
      using fL(5) [of Right] by simp
    moreover have "config (thisA\<lparr>leftHand := ls\<rparr>) = config this"
      using fL(3) by simp
    ultimately show ?thesis
      using H eq cfg res unfolding Right
      by - (rule exI [of _ st'], rule exI [of _ "thisA\<lparr>leftHand := ls\<rparr>"],
            rule exI [of _ this''], rule exI [of _ evsA], rule exI [of _ evs'], auto)
  qed
qed

lemma processFrame_moving_seen:
  assumes P: "processFrame this ts l r = Inr (res, this1)"
    and seen: "landmarks_for h (ts, l, r) = Some lms" "10 \<le> length lms"
    and mov: "isMoving (hand_state h this)"
    and sv: "sv = VelocityBuffer_average
                (VelocityBuffer_add (velocityBuffer (hand_state h this))
                   (hand_speed (hand_state h this) (Some lms)))"
  shows "(if sv < threshold (config this) * 0.5
             \<and> real (framesBelowThreshold (hand_state h this) + 1)
                 \<ge> minDurationFrames (config this)
          then \<exists>e\<in>set (events_of h (events res)). type_evt e = STOP
          else isMoving (hand_state h this1)
               \<and> framesBelowThreshold (hand_state h this1) =
                   (if sv < threshold (config this) * 0.5
                    then framesBelowThreshold (hand_state h this) + 1 else 0))
         \<and> lastPosition (hand_state h this1) = Some (currentPos_of lms)
         \<and> velocityBuffer (hand_state h this1) =
             VelocityBuffer_add (velocityBuffer (hand_state h this))
               (hand_speed (hand_state h this) (Some lms))
         \<and> config this1 = config this"
proof -
  let ?st = "hand_state h this"
  let ?iv = "hand_speed ?st (Some lms)"
  let ?st2 = "?st\<lparr>lastPosition := Some (currentPos_of lms),
                velocityBuffer := VelocityBuffer_add (velocityBuffer ?st) ?iv\<rparr>"
  from processFrame_seen [OF P seen] obtain st' this' this'' evs evs' where
    H: "hysteresis this' ts h ?st2 ?iv sv evs = (st', this'', evs')" and
    facts: "config this' = config this" "hand_state h this1 = st'"
      "events_of h evs = []" "events_of h (events res) = events_of h evs'"
      "config this1 = config this"
    unfolding sv by blast
  have m2: "isMoving ?st2" using mov by simp
  from hysteresis_moving [OF m2 H] facts show ?thesis
    by (auto split: if_splits)
qed

lemma run_complete_Cons:
  assumes "length (run this ((ts, l, r) # fs)) = length ((ts, l, r) # fs)"
  obtains res this1 where "processFrame this ts l r = Inr (res, this1)"
    "length (run this1 fs) = length fs"
  using assms by (cases "processFrame this ts l r") auto

lemma rest_stops:
  assumes "0 < threshold (config this)"
    and "minDurationFrames (config this) = real d"
    and "size_vb (velocityBuffer (hand_state h this)) = real c"
    and "length b1 \<le> c"
    and "buffer (velocityBuffer (hand_state h this)) =
           drop (length b1 + m - c) (b1 @ replicate m 0)"
    and "isMoving (hand_state h this)"
    and "lastPosition (hand_state h this) = Some q"
    and "\<forall>f\<in>set fs. fixed_at h q f"
    and "length (run this fs) = length fs"
    and "(c - Suc m)
           + max 1 (d - (if c \<le> Suc m then framesBelowThreshold (hand_state h this) else 0))
         \<le> length fs"
  shows "\<exists>e\<in>set (events_of h (session_log this fs)). type_evt e = STOP"
  using assms
proof (induction fs arbitrary: this m)
  case Nil
  then show ?case by simp
next
  case (Cons f fs)
  obtain ts l r where f: "f = (ts, l, r)" by (cases f)
  from Cons.prems(9) obtain res this1 where
    P: "processFrame this ts l r = Inr (res, this1)" and
    len1: "length (run this1 fs) = length fs"
    unfolding f by (rule run_complete_Cons)
  note log = session_log_Inr [OF P, of fs]
  from Cons.prems(8) obtain lms where
    seen: "landmarks_for h (ts, l, r) = Some lms" "10 \<le> length lms" and
    pos: "currentPos_of lms = q"
    by (auto simp: f fixed_at_def split: option.splits)
  let ?st = "hand_state h this"
  have iv: "hand_speed ?st (Some lms) = 0"
    using Cons.prems(7) pos seen(2) by (intro hand_speed_same) auto
  let ?vb = "VelocityBuffer_add (velocityBuffer ?st) 0"
  let ?sv = "VelocityBuffer_average ?vb"
  let ?fb = "framesBelowThreshold ?st"
  have buf: "buffer ?vb = drop (length b1 + Suc m - c) (b1 @ replicate (Suc m) 0)"
    using Cons.prems(3,4,5) by (rule add_zero_formula)
  have size: "size_vb ?vb = real c"
    by (simp add: VelocityBuffer_add_def Let_def Cons.prems(3))
  note step = processFrame_moving_seen [OF P seen Cons.prems(6) refl, unfolded iv]
  show ?case
  proof (cases "?sv < threshold (config this) * 0.5
                 \<and> real (?fb + 1) \<ge> minDurationFrames (config this)")
    case True
    with step have "\<exists>e\<in>set (events_of h (events res)). type_evt e = STOP"
      by simp
    then show ?thesis by (auto simp: f log)
  next
    case False
    with step have st1: "isMoving (hand_state h this1)"
      "framesBelowThreshold (hand_state h this1) =
         (if ?sv < threshold (config this) * 0.5 then ?fb + 1 else 0)"
      "lastPosition (hand_state h this1) = Some q"
      "velocityBuffer (hand_state h this1) = ?vb"
      "config this1 = config this"
      by (simp_all add: pos)
    have bound: "(c - Suc (Suc m))
           + max 1 (d - (if c \<le> Suc (Suc m)
                         then framesBelowThreshold (hand_state h this1) else 0))
         \<le> length fs"
    proof (cases "c \<le> Suc m")
      case True
      then have "set (buffer ?vb) \<subseteq> {0}"
        unfolding buf using Cons.prems(4) by (intro flushed_zeros) simp_all
      then have "?sv = 0" by (rule average_zeros)
      with Cons.prems(1) have below: "?sv < threshold (config this) * 0.5" by simp
      with False Cons.prems(2) have "?fb + 1 < d" by simp
      moreover from below st1(2) have "framesBelowThreshold (hand_state h this1) = ?fb + 1"
        by simp
      ultimately show ?thesis using True Cons.prems(10) by simp
    next
      case False
      with Cons.prems(10) show ?thesis by (simp add: max_def split: if_splits; arith)
    qed
    from Cons.prems(8) have fixed: "\<forall>f\<in>set fs. fixed_at h q f" by simp
    have "\<exists>e\<in>set (events_of h (session_log this1 fs)). type_evt e = STOP"
      using Cons.prems(1,2) st1 size buf Cons.prems(4) fixed len1 bound
      by (intro Cons.IH [of this1 "Suc m"]) simp_all
    then show ?thesis by (auto simp: f log)
  qed
qed

text \<open>
  A moving hand that is fed one fixed position stops: under a configuration with
  positive threshold, window capacity \<open>c \<ge> 1\<close> and debounce length \<open>d \<ge> 1\<close>, and with
  a window that holds no more than \<open>c\<close> samples, \<open>c + d\<close> frames at the position emit a
  STOP for the hand.
\<close>

lemma fixed_position_stops:
  assumes "0 < threshold (config this)"
    and "minDurationFrames (config this) = real d" and "1 \<le> d"
    and "size_vb (velocityBuffer (hand_state h this)) = real c" and "1 \<le> c"
    and "length (buffer (velocityBuffer (hand_state h this))) \<le> c"
    and "isMoving (hand_state h this)"
    and "\<forall>f\<in>set fs. fixed_at h q f"
    and "length (run this fs) = length fs"
    and "c + d \<le> length fs"
  shows "\<exists>e\<in>set (events_of h (session_log this fs)). type_evt e = STOP"
proof (cases fs)
  case Nil
  with assms(3,10) show ?thesis by simp
next
  case (Cons f fs')
  obtain ts l r where f: "f = (ts, l, r)" by (cases f)
  from assms(9) obtain res this1 where
    P: "processFrame this ts l r = Inr (res, this1)" and
    len1: "length (run this1 fs') = length fs'"
    unfolding Cons f by (rule run_complete_Cons)
  note log = session_log_Inr [OF P, of fs']
  from assms(8) obtain lms where
    seen: "landmarks_for h (ts, l, r) = Some lms" "10 \<le> length lms" and
    pos: "currentPos_of lms = q"
    by (auto simp: Cons f fixed_at_def split: option.splits)
  let ?st = "hand_state h this"
  let ?vb = "VelocityBuffer_add (velocityBuffer ?st) (hand_speed ?st (Some lms))"
  let ?sv = "VelocityBuffer_average ?vb"
  note step = processFrame_moving_seen [OF P seen assms(7) refl]
  note bounded = add_bounded [OF assms(4,6), of "hand_speed ?st (Some lms)"]
  show ?thesis
  proof (cases "?sv < threshold (config this) * 0.5
                 \<and> real (framesBelowThreshold ?st + 1) \<ge> minDurationFrames (config this)")
    case True
    with step have "\<exists>e\<in>set (events_of h (events res)). type_evt e = STOP"
      by simp
    then show ?thesis by (auto simp: Cons f log)
  next
    case False
    with step have st1: "isMoving (hand_state h this1)"
      "lastPosition (hand_state h this1) = Some q"
      "velocityBuffer (hand_state h this1) = ?vb"
      "config this1 = config this"
      by (simp_all add: pos)
    have buf: "buffer (velocityBuffer (hand_state h this1)) =
                 drop (length (buffer ?vb) + 0 - c) (buffer ?vb @ replicate 0 0)"
      using bounded(2) by (simp add: st1(3))
    have bound: "(c - Suc 0)
           + max 1 (d - (if c \<le> Suc 0
                         then framesBelowThreshold (hand_state h this1) else 0))
         \<le> length fs'"
      using assms(3,5,10) unfolding Cons max_def by (cases "c \<le> Suc 0") auto
    from assms(8) have fixed: "\<forall>f\<in>set fs'. fixed_at h q f" by (simp add: Cons)
    have "\<exists>e\<in>set (events_of h (session_log this1 fs')). type_evt e = STOP"
      using assms(1,2) st1 bounded buf fixed len1 bound
      by (intro rest_stops [of this1 d h c "buffer ?vb" 0 q fs']) simp_all
    then show ?thesis by (auto simp: Cons f log)
  qed
qed

lemma processFrame_window:
  assumes P: "processFrame this ts l r = Inr (res, this1)"
  shows "\<exists>v. velocityBuffer (hand_state h this1) =
               VelocityBuffer_add (velocityBuffer (hand_state h this)) v"
proof (cases "hand_lost (landmarks_for h (ts, l, r))")
  case True
  from processFrame_lost(3) [OF P True] show ?thesis by auto
next
  case False
  then obtain lms where lm: "landmarks_for h (ts, l, r) = Some lms" and pos: "0 < length lms"
    by (cases "landmarks_for h (ts, l, r)") auto
  have "\<not> short_list (landmarks_for h (ts, l, r))"
    using processFrame_throws_iff [of this ts l r] P by (cases h) auto
  with lm pos have len: "10 \<le> length lms"
    by (simp add: short_list_def)
  from processFrame_seen [OF P lm len] obtain st' this' this'' evs evs' where
    H: "hysteresis this' ts h
          ((hand_state h this)\<lparr>lastPosition := Some (currentPos_of lms),
             velocityBuffer := VelocityBuffer_add (velocityBuffer (hand_state h this))
                                 (hand_speed (hand_state h this) (Some lms))\<rparr>)
          (hand_speed (hand_state h this) (Some lms))
          (VelocityBuffer_average
             (VelocityBuffer_add (velocityBuffer (hand_state h this))
                (hand_speed (hand_state h this) (Some lms))))
          evs = (st', this'', evs')"
    and st: "hand_state h this1 = st'"
    by blast
  from H have "velocityBuffer st' =
      VelocityBuffer_add (velocityBuffer (hand_state h this))
        (hand_speed (hand_state h this) (Some lms))"
    by (cases rule: hysteresis_cases) simp_all
  with st show ?thesis by auto
qed

lemma window_ok_run:
  assumes "window_ok c (hand_state h this)" and "ret \<in> set (run this fs)"
  shows "window_ok c (hand_state h (snd ret)) \<and> config (snd ret) = config this"
  using assms
proof (induction fs arbitrary: this)
  case Nil
  then show ?case by simp
next
  case (Cons f fs)
  obtain ts l r where f: "f = (ts, l, r)" by (cases f)
  show ?case
  proof (cases "processFrame this ts l r")
    case (Inl err)
    with Cons.prems(2) show ?thesis by (simp add: f)
  next
    case (Inr p)
    then obtain res this1 where P: "processFrame this ts l r = Inr (res, this1)"
      by (cases p) simp
    from processFrame_window [OF P, of h] obtain v where
      "velocityBuffer (hand_state h this1) =
         VelocityBuffer_add (velocityBuffer (hand_state h this)) v" ..
    with Cons.prems(1) have ok1: "window_ok c (hand_state h this1)"
      using add_bounded [of "velocityBuffer (hand_state h this)" c v]
      by (simp add: window_ok_def)
    have cfg: "config this1 = config this"
      using processFrame_frame(2) [OF P] .
    from Cons.prems(2) P have "ret = (res, this1) \<or> ret \<in> set (run this1 fs)"
      by (simp add: f)
    then show ?thesis
    proof
      assume "ret = (res, this1)"
      with ok1 cfg show ?thesis by simp
    next
      assume "ret \<in> set (run this1 fs)"
      from Cons.IH [OF ok1 this] cfg show ?thesis by simp
    qed
  qed
qed

lemma run_length_le: "length (run this fs) \<le> length fs"
proof (induction fs arbitrary: this)
  case Nil
  show ?case by simp
next
  case (Cons f fs)
  obtain ts l r where f: "f = (ts, l, r)" by (cases f)
  show ?case
    using Cons.IH by (cases "processFrame this ts l r") (auto simp: f)
qed

lemma run_append_complete:
  assumes "length (run this (fs0 @ fs)) = length (fs0 @ fs)"
  shows "length (run this fs0) = length fs0
         \<and> run this (fs0 @ fs) =
             run this fs0 @ run (state_before this fs0 (length fs0)) fs"
  using assms
proof (induction fs0 arbitrary: this)
  case Nil
  show ?case by simp
next
  case (Cons f fs0)
  obtain ts l r where f: "f = (ts, l, r)" by (cases f)
  from Cons.prems obtain res this1 where
    P: "processFrame this ts l r = Inr (res, this1)" and
    len1: "length (run this1 (fs0 @ fs)) = length (fs0 @ fs)"
    unfolding f append_Cons by (rule run_complete_Cons)
  from Cons.IH [OF len1] P show ?case
    by (simp add: f state_before_Suc [OF P])
qed

lemma session_log_nth:
  assumes "e \<in> set (session_log this fs)"
  obtains i where "i < length (run this fs)" "e \<in> set (frame_events this fs i)"
proof -
  from assms obtain ret where "ret \<in> set (run this fs)" "e \<in> set (events (fst ret))"
    by (auto simp: session_log_def)
  then obtain i where "i < length (run this fs)" "run this fs ! i = ret"
    by (auto simp: in_set_conv_nth)
  with \<open>e \<in> set (events (fst ret))\<close> that show thesis
    by (simp add: frame_events_def)
qed

text \<open>
  In a session with a valid configuration: when a hand is moving and is then fed one
  fixed position for at least debounce length + window capacity frames, one of those
  frames emits a STOP for it.
\<close>

lemma session_fixed_position_stops:
  assumes "0 < threshold (config this)"
    and "smoothingFrames (config this) = real c" and "1 \<le> c"
    and "minDurationFrames (config this) = real d" and "1 \<le> d"
    and "length (run (resetSession this now) (fs0 @ fs)) = length (fs0 @ fs)"
    and "isMoving (hand_state h (state_before (resetSession this now) fs0 (length fs0)))"
    and "\<forall>f\<in>set fs. fixed_at h q f"
    and "c + d \<le> length fs"
  shows "\<exists>i e. length fs0 \<le> i \<and> i < length fs0 + length fs
           \<and> e \<in> set (frame_events (resetSession this now) (fs0 @ fs) i)
           \<and> hand e = h \<and> type_evt e = STOP"
proof -
  let ?S = "resetSession this now"
  let ?T = "state_before ?S fs0 (length fs0)"
  from run_append_complete [OF assms(6)] have
    len0: "length (run ?S fs0) = length fs0" and
    app: "run ?S (fs0 @ fs) = run ?S fs0 @ run ?T fs"
    by simp_all
  from assms(6) app len0 have lenT: "length (run ?T fs) = length fs" by simp
  have ok0: "window_ok c (hand_state h ?S)"
    using assms(2)
    by (cases h) (simp_all add: window_ok_def resetSession_def createHandState_def
        VelocityBuffer_new_def)
  have okT: "window_ok c (hand_state h ?T) \<and> config ?T = config ?S"
  proof (cases fs0)
    case Nil
    with ok0 show ?thesis by simp
  next
    case (Cons f fs0')
    with len0 have ne: "run ?S fs0 \<noteq> []" by auto
    from ne have "last (run ?S fs0) = run ?S fs0 ! (length (run ?S fs0) - 1)"
      by (rule last_conv_nth)
    with Cons len0 have "?T = snd (last (run ?S fs0))"
      by (simp add: state_before_def del: run.simps)
    moreover have "last (run ?S fs0) \<in> set (run ?S fs0)"
      using len0 Cons by (intro last_in_set) auto
    ultimately show ?thesis using window_ok_run [OF ok0] by simp
  qed
  have "\<exists>e\<in>set (events_of h (session_log ?T fs)). type_evt e = STOP"
    using assms(1,3,4,5,7,8,9) okT lenT
    by (intro fixed_position_stops [of ?T d h c fs q]) (simp_all add: window_ok_def)
  then obtain e where e: "e \<in> set (session_log ?T fs)" "hand e = h" "type_evt e = STOP"
    by (auto simp: events_of_def)
  from e(1) obtain i where i: "i < length (run ?T fs)" "e \<in> set (frame_events ?T fs i)"
    by (rule session_log_nth)
  have "frame_events ?S (fs0 @ fs) (length fs0 + i) = frame_events ?T fs i"
    using len0 by (simp add: frame_events_def app nth_append)
  with i e lenT show ?thesis
    by (intro exI [of _ "length fs0 + i"] exI [of _ e]) simp
qed

text \<open>Scenario D is an instance: the ten fixed-position frames 17..26 emit a STOP.\<close>

lemma two_run_rest_stops:
  "\<exists>i e. 17 \<le> i \<and> i < 27
     \<and> e \<in> set (frame_events (new_session TRACKER_CONFIG 0) two_run_frames i)
     \<and> hand e = Left \<and> type_evt e = STOP"
proof -
  let ?N = "projr (MotionAnalyzer_new TRACKER_CONFIG)"
  let ?S = "resetSession ?N 0"
  have S: "?S = new_session TRACKER_CONFIG 0" by (simp add: new_session_def)
  have len: "length (run ?S (two_run_moves @ fixed_frames)) = 27"
    using arg_cong [OF two_run_flags, of length]
    by (simp add: S two_run_frames_def)
  have l0: "length two_run_moves = 17" "length fixed_frames = 10"
    by (simp_all add: two_run_moves_def fixed_frames_def)
  then have complete:
    "length (run ?S (two_run_moves @ fixed_frames)) = length (two_run_moves @ fixed_frames)"
    using len by simp
  from run_append_complete [OF complete] have
    len0: "length (run ?S two_run_moves) = 17" and
    app: "run ?S (two_run_moves @ fixed_frames) =
            run ?S two_run_moves
            @ run (state_before ?S two_run_moves (length two_run_moves)) fixed_frames"
    using l0 by simp_all
  have "run ?S two_run_moves ! 16 = run ?S (two_run_moves @ fixed_frames) ! 16"
    using len0 by (simp add: app nth_append)
  moreover have "left_flags (run ?S (two_run_moves @ fixed_frames) ! 16) = (True, 5, 5)"
    using arg_cong [OF two_run_flags, of "\<lambda>vs. vs ! 16"] len
    by (simp add: S two_run_frames_def)
  ultimately have mov:
    "isMoving (hand_state Left (state_before ?S two_run_moves (length two_run_moves)))"
    using len0 l0 by (simp add: state_before_def left_flags_def del: run.simps)
  have fixed: "\<forall>f\<in>set fixed_frames.
                 fixed_at Left \<lparr>x = 2004 / 1000, y = 0, z = 0\<rparr> f"
    by (simp add: fixed_frames_def fixed_at_def hand_at_def currentPos_of_def)
  have cfg: "0 < threshold (config ?N)" "smoothingFrames (config ?N) = real 5"
    "minDurationFrames (config ?N) = real 5"
    by (simp_all add: MotionAnalyzer_new_def TRACKER_CONFIG_def)
  from session_fixed_position_stops
         [of ?N 5 5 0 two_run_moves fixed_frames Left
             "\<lparr>x = 2004 / 1000, y = 0, z = 0\<rparr>", OF cfg(1,2) _ cfg(3) _ complete mov fixed]
  show ?thesis
    using l0 by (simp add: S two_run_frames_def)
qed

text \<open>
  What a STOP needs: the hand is visible and moving, the smoothed velocity of the frame
  is below the stop threshold, and the below-threshold counter reaches the debounce
  length with this frame.
\<close>

lemma stop_needs_below:
  assumes P: "processFrame this ts l r = Inr (res, this1)"
    and mem: "e \<in> set (events_of h (events res))"
    and stop: "type_evt e = STOP"
  shows "\<not> hand_lost (landmarks_for h (ts, l, r))"
    and "isMoving (hand_state h this)"
    and "smoothed_speed h this (ts, l, r) < threshold (config this) * 0.5"
    and "real (framesBelowThreshold (hand_state h this) + 1)
           \<ge> minDurationFrames (config this)"
proof -
  from P have conj: "\<not> hand_lost (landmarks_for h (ts, l, r))
      \<and> isMoving (hand_state h this) \<and> \<not> isMoving (hand_state h this1)"
  proof (cases rule: processFrame_hand_cases [where h = h])
    case quiet
    with mem show ?thesis by simp
  next
    case (start e')
    with mem stop show ?thesis by simp
  next
    case (stop e')
    then show ?thesis by simp
  qed
  then have facts: "\<not> hand_lost (landmarks_for h (ts, l, r))"
    "isMoving (hand_state h this)" "\<not> isMoving (hand_state h this1)"
    by simp_all
  from facts(1) obtain lms where lm: "landmarks_for h (ts, l, r) = Some lms"
    and pos: "0 < length lms"
    by (cases "landmarks_for h (ts, l, r)") auto
  have "\<not> short_list (landmarks_for h (ts, l, r))"
    using processFrame_throws_iff [of this ts l r] P by (cases h) auto
  with lm pos have len: "10 \<le> length lms"
    by (simp add: short_list_def)
  have sv: "smoothed_speed h this (ts, l, r) =
              VelocityBuffer_average
                (VelocityBuffer_add (velocityBuffer (hand_state h this))
                   (hand_speed (hand_state h this) (Some lms)))"
    by (simp add: smoothed_speed_def raw_speed_def lm)
  from processFrame_moving_seen [OF P lm len facts(2) sv] facts(3)
  have "smoothed_speed h this (ts, l, r) < threshold (config this) * 0.5
        \<and> real (framesBelowThreshold (hand_state h this) + 1)
            \<ge> minDurationFrames (config this)"
    by (simp split: if_splits)
  with facts show "\<not> hand_lost (landmarks_for h (ts, l, r))"
    and "isMoving (hand_state h this)"
    and "smoothed_speed h this (ts, l, r) < threshold (config this) * 0.5"
    and "real (framesBelowThreshold (hand_state h this) + 1)
           \<ge> minDurationFrames (config this)"
    by simp_all
qed

section \<open>The claims\<close>

text \<open>
  C1 (as amended).  Configuration 0.8 / 5 / 5, session start 0.  After one earlier frame
  has fixed the hand's position, ten frames at timestamps 0..9 each push a raw speed of
  2.0.  The window average is taken over the samples present, so the smoothed velocity
  is 1.0 and above 0.8 already at frame 0; the window is \<open>[2,2,2,2,2]\<close> with average 2.0 at
  frame 4, and that frame, the fifth above the threshold, emits the START event, with
  orderIndex 1 and session-relative timestamp 4.  No other frame emits an event.
\<close>

theorem C1_start_fires_at_frame_4:
  "map readout (tl (run (new_session TRACKER_CONFIG 0) primed_frames)) =
     [([], Some 1, [0, 2]),
      ([], Some (4 / 3), [0, 2, 2]),
      ([], Some (3 / 2), [0, 2, 2, 2]),
      ([], Some (8 / 5), [0, 2, 2, 2, 2]),
      ([\<lparr>id_evt = ''evt_0'', hand = Left, type_evt = START, timestamp = 4,
         duration = None, distance = None, orderIndex = Some 1\<rparr>],
       Some 2, [2, 2, 2, 2, 2]),
      ([], Some 2, [2, 2, 2, 2, 2]),
      ([], Some 2, [2, 2, 2, 2, 2]),
      ([], Some 2, [2, 2, 2, 2, 2]),
      ([], Some 2, [2, 2, 2, 2, 2]),
      ([], Some 2, [2, 2, 2, 2, 2])]"
  by (simp add: map_tl primed_run)

text \<open>
  C1 as stated fails: the frame with index 8 of the ten (call 9 of the run that starts
  with the position-fixing frame) emits nothing, and the smoothed velocity is above 0.8
  at frame 0 already.  Without the position-fixing frame the first of the ten frames
  has raw speed 0 and the START comes at frame 5; frame 8 emits nothing there either.
  On the state with a last position and an empty window (scenario B') the smoothed
  velocity is 2.0 at frame 0, the START comes at frame 4 and frame 8 emits nothing.
\<close>

theorem C1_no_start_at_frame_8:
  "frame_events (new_session TRACKER_CONFIG 0) primed_frames 9 = []
   \<and> map_option velocity (leftMetrics (fst (run (new_session TRACKER_CONFIG 0) primed_frames ! 1)))
       = Some 1
   \<and> frame_events (new_session TRACKER_CONFIG 0) unprimed_frames 8 = []
   \<and> map type_evt (frame_events (new_session TRACKER_CONFIG 0) unprimed_frames 5) = [START]
   \<and> frame_events seeded_session steady_frames 8 = []
   \<and> map type_evt (frame_events seeded_session steady_frames 4) = [START]
   \<and> map_option velocity (leftMetrics (fst (run seeded_session steady_frames ! 0))) = Some 2"
  using nth_readout [OF primed_run, of 9] nth_readout [OF primed_run, of 1]
    nth_readout [OF unprimed_run, of 8] nth_readout [OF unprimed_run, of 5]
    nth_readout [OF seeded_run, of 8] nth_readout [OF seeded_run, of 4]
    nth_readout [OF seeded_run, of 0]
  by (simp add: readout_def frame_events_def)

text \<open>
  C2.  In the log of a session (any analyzer after \<open>resetSession\<close>, any sequence of
  frames) the events of either hand start with START and alternate strictly: no two
  neighbours of that hand have the same type.  The list may end on a START.
\<close>

theorem C2_events_alternate:
  "alternating START (events_of h (session_log (resetSession this now) fs))
   \<and> (\<forall>i. Suc i < length (events_of h (session_log (resetSession this now) fs)) \<longrightarrow>
          type_evt (events_of h (session_log (resetSession this now) fs) ! i)
            \<noteq> type_evt (events_of h (session_log (resetSession this now) fs) ! Suc i))"
  using alternating_log [of h "resetSession this now" fs]
  by (auto dest: alternating_adjacent)

theorem C2_events_alternate_witness:
  "map type_evt (events_of Left (session_log (new_session TRACKER_CONFIG 0) two_run_frames))
     = [START, STOP, START, STOP]
   \<and> alternating START
        (events_of Left (session_log (new_session TRACKER_CONFIG 0) two_run_frames))
   \<and> Suc 2 < length
        (events_of Left (session_log (new_session TRACKER_CONFIG 0) two_run_frames))
   \<and> type_evt (events_of Left
                   (session_log (new_session TRACKER_CONFIG 0) two_run_frames) ! 2)
        \<noteq> type_evt (events_of Left
                      (session_log (new_session TRACKER_CONFIG 0) two_run_frames) ! Suc 2)"
  using C2_events_alternate
          [of Left "projr (MotionAnalyzer_new TRACKER_CONFIG)" 0 two_run_frames]
    log_readout [OF two_run_run]
  by (simp add: new_session_def session_log_def)

text \<open>
  C3.  The ordinals of the START events of a session's log, both hands together and in
  log order, are 1, 2, 3, ...: every START carries one, the first is 1, and each is
  strictly greater than all before it.
\<close>

theorem C3_order_index_increasing:
  "length (start_orders (session_log (resetSession this now) fs))
     = length (starts (session_log (resetSession this now) fs))
   \<and> start_orders (session_log (resetSession this now) fs)
       = [1 ..< Suc (length (starts (session_log (resetSession this now) fs)))]
   \<and> (\<forall>i j. i < j \<and> j < length (start_orders (session_log (resetSession this now) fs)) \<longrightarrow>
          start_orders (session_log (resetSession this now) fs) ! i
            < start_orders (session_log (resetSession this now) fs) ! j)
   \<and> (start_orders (session_log (resetSession this now) fs) \<noteq> [] \<longrightarrow>
          hd (start_orders (session_log (resetSession this now) fs)) = 1)"
proof -
  let ?os = "start_orders (session_log (resetSession this now) fs)"
  let ?n = "length (starts (session_log (resetSession this now) fs))"
  have eq: "?os = [1 ..< Suc ?n]"
    using start_orders_log [of "resetSession this now" fs] by simp
  then have len: "length ?os = ?n" by (simp del: upt_Suc)
  have "\<forall>i j. i < j \<and> j < length ?os \<longrightarrow> ?os ! i < ?os ! j"
    using len by (simp add: eq del: upt_Suc)
  moreover have "?os \<noteq> [] \<longrightarrow> hd ?os = 1"
    using len by (cases "?n = 0") (simp_all add: eq upt_conv_Cons del: upt_Suc)
  ultimately show ?thesis using eq len by blast
qed

theorem C3_order_index_increasing_witness:
  "map (\<lambda>e. (hand e, type_evt e, orderIndex e))
       (session_log (new_session TRACKER_CONFIG 0) both_hands_frames)
     = [(Left, START, Some 1), (Right, START, Some 2)]
   \<and> start_orders (session_log (new_session TRACKER_CONFIG 0) both_hands_frames) = [1, 2]
   \<and> 1 < length (start_orders (session_log (new_session TRACKER_CONFIG 0) both_hands_frames))
   \<and> start_orders (session_log (new_session TRACKER_CONFIG 0) both_hands_frames) ! 0
        < start_orders (session_log (new_session TRACKER_CONFIG 0) both_hands_frames) ! 1
   \<and> start_orders (session_log (new_session TRACKER_CONFIG 0) both_hands_frames) \<noteq> []
   \<and> hd (start_orders (session_log (new_session TRACKER_CONFIG 0) both_hands_frames)) = 1"
proof -
  have log: "session_log (new_session TRACKER_CONFIG 0) both_hands_frames =
     [\<lparr>id_evt = ''evt_0'', hand = Left, type_evt = START, timestamp = 5,
        duration = None, distance = None, orderIndex = Some 1\<rparr>,
      \<lparr>id_evt = ''evt_1'', hand = Right, type_evt = START, timestamp = 5,
        duration = None, distance = None, orderIndex = Some 2\<rparr>]"
    by (simp add: session_log_def both_hands_run)
  from C3_order_index_increasing
         [of "projr (MotionAnalyzer_new TRACKER_CONFIG)" 0 both_hands_frames]
  show ?thesis
    unfolding new_session_def [symmetric] by (simp add: log starts_def)
qed

text \<open>
  C4, evaluated where it fails.  The clock stands at 0 while the hand starts to move, so
  the START fires in a frame with timestamp 0; the hand then rests and the STOP fires at
  timestamp 9.  \<open>state.motionStartTime || timestamp\<close> takes the start time 0 for
  missing: the STOP event carries duration 0, not 9 - 0 = 9.
\<close>

theorem C4_zero_start_time_duration:
  "map (\<lambda>e. (type_evt e, timestamp e, duration e))
       (session_log (new_session TRACKER_CONFIG 0) zero_clock_frames)
     = [(START, 0, None), (STOP, 9, Some 0)]"
  using log_readout [OF zero_clock_run] by (simp add: session_log_def)

text \<open>
  C5.  In a session, a STOP event of a hand emitted by call \<open>i\<close> has a START event of
  that hand before it, emitted by a call \<open>j < i\<close> that found the hand idle; every call
  after \<open>j\<close> up to and including \<open>i\<close> found the hand moving; and the distance of the
  STOP event is the sum of the raw speeds of exactly those calls \<open>j + 1, ..., i\<close> (an
  absent hand contributes none), the START call \<open>j\<close> left out.
\<close>

theorem C5_stop_distance:
  assumes "i < length (run (resetSession this now) fs)"
    and "e \<in> set (frame_events (resetSession this now) fs i)"
    and "hand e = h"
    and "type_evt e = STOP"
  shows "\<exists>j<i.
           (\<exists>e'\<in>set (frame_events (resetSession this now) fs j).
               hand e' = h \<and> type_evt e' = START)
           \<and> \<not> isMoving (hand_state h (state_before (resetSession this now) fs j))
           \<and> (\<forall>k. j < k \<and> k \<le> i \<longrightarrow>
                  isMoving (hand_state h (state_before (resetSession this now) fs k)))
           \<and> distance e =
               Some (\<Sum>k = Suc j..i.
                       raw_speed h (state_before (resetSession this now) fs k) (fs ! k))"
proof -
  let ?S = "resetSession this now"
  from assms(2,3) have mem: "e \<in> set (events_of h (frame_events ?S fs i))"
    by (simp add: events_of_def)
  have idle: "\<not> isMoving (hand_state h (state_before ?S fs 0))"
    by simp
  from stop_distance_general [OF assms(1) mem assms(4)] idle
  obtain j where j: "j < i"
    "\<not> isMoving (hand_state h (state_before ?S fs j))"
    "\<exists>e'\<in>set (events_of h (frame_events ?S fs j)). type_evt e' = START"
    "\<forall>k. j < k \<and> k \<le> i \<longrightarrow> isMoving (hand_state h (state_before ?S fs k))"
    "distance e = Some (\<Sum>k = Suc j..i. raw_speed h (state_before ?S fs k) (fs ! k))"
    by blast
  from j(3) have "\<exists>e'\<in>set (frame_events ?S fs j). hand e' = h \<and> type_evt e' = START"
    by (auto simp: events_of_def)
  with j show ?thesis by blast
qed

theorem C5_stop_distance_witness:
  "24 < length (run (new_session TRACKER_CONFIG 0)
                  (unprimed_frames @ absent_frames @ reappear_frames))
   \<and> \<lparr>id_evt = ''evt_1'', hand = Left, type_evt = STOP, timestamp = 24,
        duration = Some 19, distance = Some 8, orderIndex = None\<rparr>
       \<in> set (frame_events (new_session TRACKER_CONFIG 0)
                 (unprimed_frames @ absent_frames @ reappear_frames) 24)
   \<and> map type_evt (frame_events (new_session TRACKER_CONFIG 0)
                       (unprimed_frames @ absent_frames @ reappear_frames) 5) = [START]
   \<and> (\<Sum>k = Suc 5..24.
          raw_speed Left
            (state_before (new_session TRACKER_CONFIG 0)
               (unprimed_frames @ absent_frames @ reappear_frames) k)
            ((unprimed_frames @ absent_frames @ reappear_frames) ! k)) = 8"
proof -
  let ?S = "new_session TRACKER_CONFIG 0"
  let ?F = "unprimed_frames @ absent_frames @ reappear_frames"
  let ?e = "\<lparr>id_evt = ''evt_1'', hand = Left, type_evt = STOP, timestamp = 24,
              duration = Some 19, distance = Some 8, orderIndex = None\<rparr>"
  have len: "length (run ?S ?F) = 25"
    using arg_cong [OF absence_run, of length] by simp
  have ev: "frame_events ?S ?F j = fst (map readout (run ?S ?F) ! j)" if "j < 25" for j
    using that len by (simp add: frame_events_def readout_def)
  have h1: "24 < length (run ?S ?F)" using len by simp
  have h2: "?e \<in> set (frame_events ?S ?F 24)"
    by (simp add: ev absence_run)
  have e5: "map type_evt (frame_events ?S ?F 5) = [START]"
    by (simp add: ev absence_run)
  have only5: "j = 5" if "j < 24" "\<exists>e'\<in>set (frame_events ?S ?F j). type_evt e' = START" for j
  proof -
    from that(1) consider "j = 5" | "j < 5" | "5 < j \<and> j < 24" by linarith
    then show ?thesis
    proof cases
      case 1
      then show ?thesis .
    next
      case 2
      then have "j \<in> {0, 1, 2, 3, 4}" by auto
      with that(2) show ?thesis by (auto simp: ev absence_run)
    next
      case 3
      then have "j \<in> {6, 7, 8, 9, 10, 11, 12, 13, 14, 15, 16, 17, 18, 19, 20, 21, 22, 23}"
        by simp presburger
      with that(2) show ?thesis by (auto simp: ev absence_run)
    qed
  qed
  from C5_stop_distance [of 24 "projr (MotionAnalyzer_new TRACKER_CONFIG)" 0 ?F ?e Left]
    h1 h2
  obtain j where j: "j < 24"
    "\<exists>e'\<in>set (frame_events ?S ?F j). hand e' = Left \<and> type_evt e' = START"
    "distance ?e = Some (\<Sum>k = Suc j..24. raw_speed Left (state_before ?S ?F k) (?F ! k))"
    unfolding new_session_def [symmetric] by auto
  from j(1,2) have "j = 5" by (intro only5) auto
  with j(3) have "(\<Sum>k = Suc 5..24. raw_speed Left (state_before ?S ?F k) (?F ! k)) = 8"
    by simp
  with h1 h2 e5 show ?thesis by blast
qed

text \<open>
  C6 (as amended).  A frame in which a hand is absent pushes 0 into that hand's window
  and changes nothing else of its state.  A run of frames in which the hand is absent,
  however long, emits no event for it and leaves its moving flag, last position, start
  time, distance and both debounce counters as they were: absence alone never stops a
  motion.  A STOP of a hand is emitted only by a call in which the hand is visible and
  found moving, the smoothed velocity of the frame is below the stop threshold, and the
  below-threshold counter reaches the debounce length with that frame.  In scenario E
  (configuration 0.8 / 5 / 5; raw speed 2.0 until timestamp 9, absent at 10..19, seen
  again at the last position from 20 on) the ten absent frames and the first four
  frames of the reappearance emit nothing, the five frames of the reappearance have
  smoothed velocity 0, and the fifth of them, at timestamp 24, emits the STOP.
\<close>

theorem C6_absence_holds_motion:
  "((\<forall>f\<in>set fs. hand_lost (landmarks_for h f)) \<longrightarrow>
       events_of h (session_log this fs) = []
       \<and> (\<forall>ret\<in>set (run this fs).
             same_but_window (hand_state h this) (hand_state h (snd ret))))
   \<and> (processFrame this ts l r = Inr (res, this1) \<and> hand_lost (landmarks_for h (ts, l, r)) \<longrightarrow>
         velocityBuffer (hand_state h this1)
           = VelocityBuffer_add (velocityBuffer (hand_state h this)) 0
         \<and> same_but_window (hand_state h this) (hand_state h this1)
         \<and> events_of h (events res) = [])
   \<and> (processFrame thisS tsS lS rS = Inr (resS, thisS1)
        \<and> e \<in> set (events_of h (events resS)) \<and> type_evt e = STOP \<longrightarrow>
         \<not> hand_lost (landmarks_for h (tsS, lS, rS))
         \<and> isMoving (hand_state h thisS)
         \<and> smoothed_speed h thisS (tsS, lS, rS) < threshold (config thisS) * 0.5
         \<and> real (framesBelowThreshold (hand_state h thisS) + 1)
             \<ge> minDurationFrames (config thisS))
   \<and> map (\<lambda>ret. map type_evt (events (fst ret)))
         (drop 10 (run (new_session TRACKER_CONFIG 0)
                     (unprimed_frames @ absent_frames @ reappear_frames)))
       = [[], [], [], [], [], [], [], [], [], [], [], [], [], [], [STOP]]
   \<and> map (\<lambda>ret. map_option velocity (leftMetrics (fst ret)))
         (drop 20 (run (new_session TRACKER_CONFIG 0)
                     (unprimed_frames @ absent_frames @ reappear_frames)))
       = [Some 0, Some 0, Some 0, Some 0, Some 0]
   \<and> map (\<lambda>e. (type_evt e, timestamp e))
         (session_log (new_session TRACKER_CONFIG 0)
            (unprimed_frames @ absent_frames @ reappear_frames))
       = [(START, 5), (STOP, 24)]"
proof -
  have A: "(\<forall>f\<in>set fs. hand_lost (landmarks_for h f)) \<longrightarrow>
       events_of h (session_log this fs) = []
       \<and> (\<forall>ret\<in>set (run this fs).
             same_but_window (hand_state h this) (hand_state h (snd ret)))"
    using lost_run [of fs h this] by blast
  have B: "processFrame this ts l r = Inr (res, this1)
             \<and> hand_lost (landmarks_for h (ts, l, r)) \<longrightarrow>
         velocityBuffer (hand_state h this1)
           = VelocityBuffer_add (velocityBuffer (hand_state h this)) 0
         \<and> same_but_window (hand_state h this) (hand_state h this1)
         \<and> events_of h (events res) = []"
  proof (intro impI, elim conjE)
    assume P: "processFrame this ts l r = Inr (res, this1)"
      and lost: "hand_lost (landmarks_for h (ts, l, r))"
    note step = processFrame_lost [OF P lost]
    show "velocityBuffer (hand_state h this1)
           = VelocityBuffer_add (velocityBuffer (hand_state h this)) 0
         \<and> same_but_window (hand_state h this) (hand_state h this1)
         \<and> events_of h (events res) = []"
      by (simp add: step(1) step(3) same_but_window_def)
  qed
  have S: "processFrame thisS tsS lS rS = Inr (resS, thisS1)
        \<and> e \<in> set (events_of h (events resS)) \<and> type_evt e = STOP \<longrightarrow>
         \<not> hand_lost (landmarks_for h (tsS, lS, rS))
         \<and> isMoving (hand_state h thisS)
         \<and> smoothed_speed h thisS (tsS, lS, rS) < threshold (config thisS) * 0.5
         \<and> real (framesBelowThreshold (hand_state h thisS) + 1)
             \<ge> minDurationFrames (config thisS)"
    using stop_needs_below [of thisS tsS lS rS resS thisS1 e h] by blast
  have "map (\<lambda>ret. map type_evt (fst (readout ret)))
         (drop 10 (run (new_session TRACKER_CONFIG 0)
                     (unprimed_frames @ absent_frames @ reappear_frames)))
       = [[], [], [], [], [], [], [], [], [], [], [], [], [], [], [STOP]]"
    using arg_cong [OF absence_run, of "\<lambda>vs. map (\<lambda>v. map type_evt (fst v)) (drop 10 vs)"]
    by (simp add: drop_map comp_def)
  then have C: "map (\<lambda>ret. map type_evt (events (fst ret)))
         (drop 10 (run (new_session TRACKER_CONFIG 0)
                     (unprimed_frames @ absent_frames @ reappear_frames)))
       = [[], [], [], [], [], [], [], [], [], [], [], [], [], [], [STOP]]"
    by (simp add: readout_def)
  have "map (\<lambda>ret. fst (snd (readout ret)))
         (drop 20 (run (new_session TRACKER_CONFIG 0)
                     (unprimed_frames @ absent_frames @ reappear_frames)))
       = [Some 0, Some 0, Some 0, Some 0, Some 0]"
    using arg_cong [OF absence_run, of "\<lambda>vs. map (\<lambda>v. fst (snd v)) (drop 20 vs)"]
    by (simp add: drop_map comp_def)
  then have V: "map (\<lambda>ret. map_option velocity (leftMetrics (fst ret)))
         (drop 20 (run (new_session TRACKER_CONFIG 0)
                     (unprimed_frames @ absent_frames @ reappear_frames)))
       = [Some 0, Some 0, Some 0, Some 0, Some 0]"
    by (simp add: readout_def)
  have D: "map (\<lambda>e. (type_evt e, timestamp e))
         (session_log (new_session TRACKER_CONFIG 0)
            (unprimed_frames @ absent_frames @ reappear_frames))
       = [(START, 5), (STOP, 24)]"
    using log_readout [OF absence_run] by (simp add: session_log_def)
  from A B S C V D show ?thesis by blast
qed

theorem C6_absence_holds_motion_witness:
  "hand_lost (landmarks_for Left (0, None, hand_at 0))
   \<and> hand_lost (landmarks_for Left (1, Some [], hand_at 0))
   \<and> length (run (new_session TRACKER_CONFIG 0)
               [(0, None, hand_at 0), (1, Some [], hand_at 0)]) = 2
   \<and> events_of Left (session_log (new_session TRACKER_CONFIG 0)
                        [(0, None, hand_at 0), (1, Some [], hand_at 0)]) = []
   \<and> processFrame (new_session TRACKER_CONFIG 0) 0 None None
       = Inr (projr (processFrame (new_session TRACKER_CONFIG 0) 0 None None))
   \<and> buffer (velocityBuffer (leftHand
         (snd (projr (processFrame (new_session TRACKER_CONFIG 0) 0 None None))))) = [0]
   \<and> same_but_window (leftHand (new_session TRACKER_CONFIG 0))
         (leftHand (snd (projr (processFrame (new_session TRACKER_CONFIG 0) 0 None None))))
   \<and> processFrame
         (state_before (new_session TRACKER_CONFIG 0)
            (unprimed_frames @ absent_frames @ reappear_frames) 24)
         24 (hand_at (9 / 50)) None
       = Inr (run (new_session TRACKER_CONFIG 0)
                (unprimed_frames @ absent_frames @ reappear_frames) ! 24)
   \<and> \<lparr>id_evt = ''evt_1'', hand = Left, type_evt = STOP, timestamp = 24,
        duration = Some 19, distance = Some 8, orderIndex = None\<rparr>
       \<in> set (events_of Left
                 (events (fst (run (new_session TRACKER_CONFIG 0)
                                 (unprimed_frames @ absent_frames @ reappear_frames) ! 24))))
   \<and> \<not> hand_lost (landmarks_for Left (24, hand_at (9 / 50), None))
   \<and> isMoving (hand_state Left
         (state_before (new_session TRACKER_CONFIG 0)
            (unprimed_frames @ absent_frames @ reappear_frames) 24))
   \<and> smoothed_speed Left
         (state_before (new_session TRACKER_CONFIG 0)
            (unprimed_frames @ absent_frames @ reappear_frames) 24)
         (24, hand_at (9 / 50), None)
       < threshold (config (state_before (new_session TRACKER_CONFIG 0)
                              (unprimed_frames @ absent_frames @ reappear_frames) 24)) * 0.5
   \<and> real (framesBelowThreshold (hand_state Left
               (state_before (new_session TRACKER_CONFIG 0)
                  (unprimed_frames @ absent_frames @ reappear_frames) 24)) + 1)
       \<ge> minDurationFrames (config (state_before (new_session TRACKER_CONFIG 0)
                                       (unprimed_frames @ absent_frames @ reappear_frames) 24))"
proof -
  let ?S = "new_session TRACKER_CONFIG 0"
  let ?G = "[(0, None, hand_at 0), (1, Some [], hand_at 0)] :: frame list"
  let ?p = "projr (processFrame ?S 0 None None)"
  let ?F = "unprimed_frames @ absent_frames @ reappear_frames"
  let ?T = "state_before ?S ?F 24"
  let ?e = "\<lparr>id_evt = ''evt_1'', hand = Left, type_evt = STOP, timestamp = 24,
              duration = Some 19, distance = Some 8, orderIndex = None\<rparr>"
  have P: "processFrame ?S 0 None None = Inr (fst ?p, snd ?p)"
    by (simp add: eval_simps)
  have len: "length (run ?S ?G) = 2"
    by (simp add: eval_simps)
  have b0: "buffer (VelocityBuffer_add (velocityBuffer (leftHand ?S)) 0) = [0]"
    by (simp add: eval_simps)
  have lenF: "24 < length (run ?S ?F)"
    using arg_cong [OF absence_run, of length] by simp
  have f24: "?F ! 24 = (24, hand_at (9 / 50), None)"
    by (simp add: unprimed_frames_def absent_frames_def reappear_frames_def
        upt_conv_Cons nth_append)
  from run_nth [OF lenF] f24
  have PT: "processFrame ?T 24 (hand_at (9 / 50)) None = Inr (run ?S ?F ! 24)"
    by simp
  then have PT': "processFrame ?T 24 (hand_at (9 / 50)) None
                    = Inr (fst (run ?S ?F ! 24), snd (run ?S ?F ! 24))"
    by simp
  have mem: "?e \<in> set (events_of Left (events (fst (run ?S ?F ! 24))))"
    using nth_readout [OF absence_run, of 24] by (simp add: readout_def)
  note inst = C6_absence_holds_motion
    [where fs = ?G and h = Left and this = ?S and ts = 0 and l = None and r = None
       and res = "fst ?p" and ?this1.0 = "snd ?p"
       and thisS = ?T and tsS = 24 and lS = "hand_at (9 / 50)" and rS = None
       and resS = "fst (run ?S ?F ! 24)" and ?thisS1.0 = "snd (run ?S ?F ! 24)" and e = ?e]
  from inst PT' mem have stop_part:
    "\<not> hand_lost (landmarks_for Left (24, hand_at (9 / 50), None))
     \<and> isMoving (hand_state Left ?T)
     \<and> smoothed_speed Left ?T (24, hand_at (9 / 50), None) < threshold (config ?T) * 0.5
     \<and> real (framesBelowThreshold (hand_state Left ?T) + 1) \<ge> minDurationFrames (config ?T)"
    by simp
  from inst P len b0 have lost_part:
    "hand_lost (landmarks_for Left (0, None, hand_at 0))
     \<and> hand_lost (landmarks_for Left (1, Some [], hand_at 0))
     \<and> length (run ?S ?G) = 2
     \<and> events_of Left (session_log ?S ?G) = []
     \<and> processFrame ?S 0 None None = Inr ?p
     \<and> buffer (velocityBuffer (leftHand (snd ?p))) = [0]
     \<and> same_but_window (leftHand ?S) (leftHand (snd ?p))"
    by simp
  from lost_part PT mem stop_part show ?thesis by blast
qed

text \<open>
  C6 as stated fails.  Scenario E without the reappearance: after sustained raw speed
  2.0 the hand is absent for ten frames.  None of the ten emits an event, the log holds
  the START alone, the hand is still moving with a below-threshold count of 0, although
  the window has held five zeros, a smoothed average of 0 and below the stop threshold
  0.4, for six consecutive frames.
\<close>

theorem C6_absent_frames_no_stop:
  "map (\<lambda>e. (type_evt e, timestamp e))
       (session_log (new_session TRACKER_CONFIG 0) (unprimed_frames @ absent_frames))
     = [(START, 5)]
   \<and> map readout (drop 14 (run (new_session TRACKER_CONFIG 0)
                              (unprimed_frames @ absent_frames)))
       = replicate 6 ([], None, [0, 0, 0, 0, 0])
   \<and> map left_flags (drop 10 (run (new_session TRACKER_CONFIG 0)
                                 (unprimed_frames @ absent_frames)))
       = replicate 10 (True, 5, 0)
   \<and> VelocityBuffer_average \<lparr>buffer = [0, 0, 0, 0, 0], size_vb = 5\<rparr> = 0
   \<and> threshold TRACKER_CONFIG * 0.5 = 2 / 5"
proof -
  let ?rs = "run (new_session TRACKER_CONFIG 0) (unprimed_frames @ absent_frames)"
  have "map (\<lambda>e. (type_evt e, timestamp e))
       (session_log (new_session TRACKER_CONFIG 0) (unprimed_frames @ absent_frames))
     = [(START, 5)]"
    using log_readout [OF absence_only_run] by (simp add: session_log_def)
  moreover have "map readout (drop 14 ?rs) = replicate 6 ([], None, [0, 0, 0, 0, 0])"
    using arg_cong [OF absence_only_run, of "drop 14"]
    by (simp add: drop_map eval_nat_numeral)
  moreover have "map left_flags (drop 10 ?rs) = replicate 10 (True, 5, 0)"
    using arg_cong [OF absence_only_flags, of "drop 10"]
    by (simp add: drop_map eval_nat_numeral)
  moreover have "VelocityBuffer_average \<lparr>buffer = [0, 0, 0, 0, 0], size_vb = 5\<rparr> = 0"
    by (simp add: VelocityBuffer_average_def)
  moreover have "threshold TRACKER_CONFIG * 0.5 = 2 / 5"
    by (simp add: TRACKER_CONFIG_def)
  ultimately show ?thesis by blast
qed

text \<open>
  C7, evaluated where it fails.  Scenario D, configuration 0.8 / 5 / 5.  The first
  motion run (START at 5, STOP at 10) leaves the below-threshold counter at 5; nothing
  resets it while the hand is idle or when the second run starts.  The second run
  starts at timestamp 16 with the hand still moving.  From timestamp 17 on the hand is
  fed one fixed position for ten frames (debounce length + window capacity).  The
  smoothed velocity of the calls 12..16 is 20 or more, far from the stop threshold 0.4;
  call 17 is the first and only call of the run with a smoothed velocity below it
  (0.08), and it emits the STOP, the stale counter going from 5 to 6.
\<close>

theorem C7_stale_counter_early_stop:
  "map readout (take 7 (drop 11 (run (new_session TRACKER_CONFIG 0) two_run_frames))) =
     [([], Some 0, [0, 0, 0, 0, 0]),
      ([], Some 20, [0, 0, 0, 0, 100]),
      ([], Some (1001 / 50), [0, 0, 0, 100, 1 / 10]),
      ([], Some (501 / 25), [0, 0, 100, 1 / 10, 1 / 10]),
      ([], Some (1003 / 50), [0, 100, 1 / 10, 1 / 10, 1 / 10]),
      ([\<lparr>id_evt = ''evt_2'', hand = Left, type_evt = START, timestamp = 16,
         duration = None, distance = None, orderIndex = Some 2\<rparr>],
       Some (502 / 25), [100, 1 / 10, 1 / 10, 1 / 10, 1 / 10]),
      ([\<lparr>id_evt = ''evt_3'', hand = Left, type_evt = STOP, timestamp = 17,
         duration = Some 1, distance = Some 0, orderIndex = None\<rparr>],
       Some (2 / 25), [1 / 10, 1 / 10, 1 / 10, 1 / 10, 0])]
   \<and> map left_flags (take 3 (drop 15 (run (new_session TRACKER_CONFIG 0) two_run_frames))) =
       [(False, 4, 5), (True, 5, 5), (False, 5, 6)]
   \<and> map (\<lambda>e. (type_evt e, timestamp e))
         (session_log (new_session TRACKER_CONFIG 0) two_run_frames)
       = [(START, 5), (STOP, 10), (START, 16), (STOP, 17)]
   \<and> minDurationFrames TRACKER_CONFIG = 5
   \<and> threshold TRACKER_CONFIG * 0.5 = 2 / 5"
proof -
  let ?rs = "run (new_session TRACKER_CONFIG 0) two_run_frames"
  have "map readout (take 7 (drop 11 ?rs)) =
     [([], Some 0, [0, 0, 0, 0, 0]),
      ([], Some 20, [0, 0, 0, 0, 100]),
      ([], Some (1001 / 50), [0, 0, 0, 100, 1 / 10]),
      ([], Some (501 / 25), [0, 0, 100, 1 / 10, 1 / 10]),
      ([], Some (1003 / 50), [0, 100, 1 / 10, 1 / 10, 1 / 10]),
      ([\<lparr>id_evt = ''evt_2'', hand = Left, type_evt = START, timestamp = 16,
         duration = None, distance = None, orderIndex = Some 2\<rparr>],
       Some (502 / 25), [100, 1 / 10, 1 / 10, 1 / 10, 1 / 10]),
      ([\<lparr>id_evt = ''evt_3'', hand = Left, type_evt = STOP, timestamp = 17,
         duration = Some 1, distance = Some 0, orderIndex = None\<rparr>],
       Some (2 / 25), [1 / 10, 1 / 10, 1 / 10, 1 / 10, 0])]"
    using arg_cong [OF two_run_run, of "\<lambda>vs. take 7 (drop 11 vs)"]
    by (simp add: drop_map take_map)
  moreover have "map left_flags (take 3 (drop 15 ?rs)) =
       [(False, 4, 5), (True, 5, 5), (False, 5, 6)]"
    using arg_cong [OF two_run_flags, of "\<lambda>vs. take 3 (drop 15 vs)"]
    by (simp add: drop_map take_map)
  moreover have "map (\<lambda>e. (type_evt e, timestamp e))
         (session_log (new_session TRACKER_CONFIG 0) two_run_frames)
       = [(START, 5), (STOP, 10), (START, 16), (STOP, 17)]"
    using log_readout [OF two_run_run] by (simp add: session_log_def)
  moreover have "minDurationFrames TRACKER_CONFIG = 5"
    "threshold TRACKER_CONFIG * 0.5 = 2 / 5"
    by (simp_all add: TRACKER_CONFIG_def)
  ultimately show ?thesis by blast
qed

text \<open>
  C8 (as amended).  The constructor rejects nothing: for every configuration it returns
  an analyzer that stores the configuration unchanged, with both hands in the initial
  state.
\<close>

theorem C8_constructor_accepts_all:
  "\<exists>this. MotionAnalyzer_new cfg = Inr this
          \<and> config this = cfg
          \<and> leftHand this = createHandState cfg
          \<and> rightHand this = createHandState cfg"
  by (simp add: MotionAnalyzer_new_def)

text \<open>
  C8 as stated fails: a threshold of 0, a window capacity of 0 and a debounce length of
  0, one at a time or together, are accepted, and frames are processed with them.
\<close>

theorem C8_invalid_config_accepted:
  "\<not> isl (MotionAnalyzer_new (TRACKER_CONFIG\<lparr>threshold := 0\<rparr>))
   \<and> \<not> isl (MotionAnalyzer_new (TRACKER_CONFIG\<lparr>smoothingFrames := 0\<rparr>))
   \<and> \<not> isl (MotionAnalyzer_new (TRACKER_CONFIG\<lparr>minDurationFrames := 0\<rparr>))
   \<and> config (projr (MotionAnalyzer_new zero_config)) = zero_config
   \<and> map (\<lambda>ret. events (fst ret))
         (run (projr (MotionAnalyzer_new zero_config))
            [(0, hand_at 0, None), (1, hand_at 1, None)])
       = [[], []]"
  by (simp add: eval_simps zero_config_def)

text \<open>
  C9, evaluated where it fails.  A landmark list of one point (or of nine) passes the
  guard of line 94, \<open>landmarks[9]\<close> is \<open>undefined\<close>, and \<open>processFrame\<close> throws; the
  frame loop ends there.
\<close>

theorem C9_short_list_throws:
  "processFrame (new_session TRACKER_CONFIG 0) 0 (Some [\<lparr>x = 0, y = 0, z = 0\<rparr>]) None
     = Inl TypeError
   \<and> processFrame (new_session TRACKER_CONFIG 0) 0 None
        (Some (replicate 9 \<lparr>x = 0, y = 0, z = 0\<rparr>))
       = Inl TypeError
   \<and> run (new_session TRACKER_CONFIG 0)
        [(0, Some [\<lparr>x = 0, y = 0, z = 0\<rparr>], None), (1, hand_at 0, None)] = []"
  by (simp add: eval_simps)

text \<open>
  C10.  In a call that returns, a hand whose landmark input is \<open>null\<close> or empty gets no
  event and no metrics; its window receives a 0 and every other field of its state is
  unchanged.  Consequently, in any run, a call that emits a STOP for a hand found the
  hand moving and had a non-empty landmark list for it.
\<close>

theorem C10_absent_frame_inert:
  "(processFrame this ts l r = Inr (res, this1) \<and> hand_lost (landmarks_for h (ts, l, r)) \<longrightarrow>
      events_of h (events res) = []
      \<and> metrics_for h res = None
      \<and> same_but_window (hand_state h this) (hand_state h this1)
      \<and> hand_state h this1 =
          (hand_state h this)\<lparr>velocityBuffer :=
             VelocityBuffer_add (velocityBuffer (hand_state h this)) 0\<rparr>)
   \<and> (i < length (run this0 fs) \<and> e \<in> set (frame_events this0 fs i) \<and> hand e = h \<longrightarrow>
        \<not> hand_lost (landmarks_for h (fs ! i)))"
proof -
  have A: "processFrame this ts l r = Inr (res, this1)
            \<and> hand_lost (landmarks_for h (ts, l, r)) \<longrightarrow>
      events_of h (events res) = []
      \<and> metrics_for h res = None
      \<and> same_but_window (hand_state h this) (hand_state h this1)
      \<and> hand_state h this1 =
          (hand_state h this)\<lparr>velocityBuffer :=
             VelocityBuffer_add (velocityBuffer (hand_state h this)) 0\<rparr>"
  proof (intro impI, elim conjE)
    assume P: "processFrame this ts l r = Inr (res, this1)"
      and lost: "hand_lost (landmarks_for h (ts, l, r))"
    note step = processFrame_lost [OF P lost]
    have "same_but_window (hand_state h this) (hand_state h this1)"
      by (simp add: step(3) same_but_window_def)
    with step show "events_of h (events res) = []
      \<and> metrics_for h res = None
      \<and> same_but_window (hand_state h this) (hand_state h this1)
      \<and> hand_state h this1 =
          (hand_state h this)\<lparr>velocityBuffer :=
             VelocityBuffer_add (velocityBuffer (hand_state h this)) 0\<rparr>"
      by blast
  qed
  have B: "i < length (run this0 fs) \<and> e \<in> set (frame_events this0 fs i) \<and> hand e = h \<longrightarrow>
        \<not> hand_lost (landmarks_for h (fs ! i))"
    using event_needs_visible_hand [of i this0 fs e h] by blast
  from A B show ?thesis by blast
qed

theorem C10_absent_frame_inert_witness:
  "processFrame (new_session TRACKER_CONFIG 0) 0 (Some []) (hand_at 0)
     = Inr (projr (processFrame (new_session TRACKER_CONFIG 0) 0 (Some []) (hand_at 0)))
   \<and> hand_lost (landmarks_for Left (0, Some [], hand_at 0))
   \<and> events_of Left
        (events (fst (projr (processFrame (new_session TRACKER_CONFIG 0) 0 (Some []) (hand_at 0)))))
       = []
   \<and> leftHand (snd (projr (processFrame (new_session TRACKER_CONFIG 0) 0 (Some []) (hand_at 0))))
       = (leftHand (new_session TRACKER_CONFIG 0))
           \<lparr>velocityBuffer := \<lparr>buffer = [0], size_vb = 5\<rparr>\<rparr>
   \<and> 24 < length (run (new_session TRACKER_CONFIG 0)
                    (unprimed_frames @ absent_frames @ reappear_frames))
   \<and> \<lparr>id_evt = ''evt_1'', hand = Left, type_evt = STOP, timestamp = 24,
        duration = Some 19, distance = Some 8, orderIndex = None\<rparr>
       \<in> set (frame_events (new_session TRACKER_CONFIG 0)
                 (unprimed_frames @ absent_frames @ reappear_frames) 24)
   \<and> \<not> hand_lost (landmarks_for Left
                      ((unprimed_frames @ absent_frames @ reappear_frames) ! 24))"
proof -
  let ?S = "new_session TRACKER_CONFIG 0"
  let ?F = "unprimed_frames @ absent_frames @ reappear_frames"
  let ?p = "projr (processFrame ?S 0 (Some []) (hand_at 0))"
  let ?e = "\<lparr>id_evt = ''evt_1'', hand = Left, type_evt = STOP, timestamp = 24,
              duration = Some 19, distance = Some 8, orderIndex = None\<rparr>"
  have P: "processFrame ?S 0 (Some []) (hand_at 0) = Inr (fst ?p, snd ?p)"
    by (simp add: eval_simps)
  have b0: "VelocityBuffer_add (velocityBuffer (leftHand ?S)) 0 = \<lparr>buffer = [0], size_vb = 5\<rparr>"
    by (simp add: eval_simps)
  have len: "length (run ?S ?F) = 25"
    using arg_cong [OF absence_run, of length] by simp
  then have h1: "24 < length (run ?S ?F)" by simp
  have h2: "?e \<in> set (frame_events ?S ?F 24)"
    using nth_readout [OF absence_run, of 24] by (simp add: frame_events_def readout_def)
  from C10_absent_frame_inert
         [of ?S 0 "Some []" "hand_at 0" "fst ?p" "snd ?p" Left 24 ?S ?F ?e]
       P b0 h1 h2
  show ?thesis by simp
qed

end
